theory Spec2Isabelle
  imports Main "HOL-Library.Word"
begin

section \<open>Strings\<close>

text \<open>
  A JavaScript string is a sequence of UTF-16 code units; \<open>input[position]\<close> reads one
  unit. The connective symbols of the lexer lie outside ASCII, so a string is a list of
  16-bit words. \<open>ascii\<close> turns a literal into such a list.
\<close>

type_synonym code_unit = "16 word"
type_synonym js_string = "code_unit list"

definition ascii :: "string \<Rightarrow> js_string" where
  "ascii s = map (\<lambda>c. of_nat (of_char c)) s"

section \<open>JSON.stringify on formulas\<close>

text \<open>
  \<open>isFormulaEqual\<close> compares \<open>JSON.stringify(f1)\<close> with \<open>JSON.stringify(f2)\<close>.
  \<open>JSON.stringify\<close> is a builtin of the language; on a string it is the operation
  QuoteJSONString of ECMA-262: the units backspace, tab, line feed, form feed, carriage
  return, the double quote and the backslash get their two-unit escapes, every other unit
  below 0x20 and every surrogate that is not part of a lead/trail pair is written
  \<open>\uXXXX\<close> with four lowercase hexadecimal digits, and every other unit stands for itself.
\<close>

definition is_lead :: "code_unit \<Rightarrow> bool" where
  "is_lead c \<longleftrightarrow> 0xD800 \<le> c \<and> c \<le> 0xDBFF"

definition is_trail :: "code_unit \<Rightarrow> bool" where
  "is_trail c \<longleftrightarrow> 0xDC00 \<le> c \<and> c \<le> 0xDFFF"

definition hex_digit :: "nat \<Rightarrow> code_unit" where
  "hex_digit d = (if d < 10 then of_nat (48 + d) else of_nat (87 + d))"

definition hex4 :: "code_unit \<Rightarrow> js_string" where
  "hex4 c =
     [hex_digit (unat c div 4096 mod 16), hex_digit (unat c div 256 mod 16),
      hex_digit (unat c div 16 mod 16), hex_digit (unat c mod 16)]"

definition UnicodeEscape :: "code_unit \<Rightarrow> js_string" where
  "UnicodeEscape c = [0x5C, 0x75] @ hex4 c"

definition quote_unit :: "code_unit \<Rightarrow> js_string" where
  "quote_unit c =
     (if c = 0x08 then [0x5C, 0x62]
      else if c = 0x09 then [0x5C, 0x74]
      else if c = 0x0A then [0x5C, 0x6E]
      else if c = 0x0C then [0x5C, 0x66]
      else if c = 0x0D then [0x5C, 0x72]
      else if c = 0x22 then [0x5C, 0x22]
      else if c = 0x5C then [0x5C, 0x5C]
      else if c < 0x20 \<or> is_lead c \<or> is_trail c then UnicodeEscape c
      else [c])"

fun quote_units :: "js_string \<Rightarrow> js_string" where
  "quote_units [] = []"
| "quote_units [c] = quote_unit c"
| "quote_units (c # d # cs) =
     (if is_lead c \<and> is_trail d then c # d # quote_units cs
      else quote_unit c @ quote_units (d # cs))"

definition QuoteJSONString :: "js_string \<Rightarrow> js_string" where
  "QuoteJSONString s = 0x22 # quote_units s @ [0x22]"

text \<open>
  \<open>JSON.stringify\<close> on an object writes its own keys in the order in which they were
  created, each as the quoted key, a colon and the serialised value, with commas between
  and braces around. \<open>json\<close> holds the two kinds of value a formula is made of:
  strings and objects, an object as the list of its keys and values in that order.
\<close>

datatype json = JString js_string | JObject "(js_string \<times> json) list"

fun stringify :: "json \<Rightarrow> js_string"
  and stringify_members :: "(js_string \<times> json) list \<Rightarrow> js_string"
where
  "stringify (JString s) = QuoteJSONString s"
| "stringify (JObject ms) = 0x7B # stringify_members ms @ [0x7D]"
| "stringify_members [] = []"
| "stringify_members [(k, v)] = QuoteJSONString k @ 0x3A # stringify v"
| "stringify_members ((k, v) # m # ms) =
     QuoteJSONString k @ 0x3A # stringify v @ 0x2C # stringify_members (m # ms)"

text \<open>
  \<open>type Connective = 'NOT' | 'AND' | 'OR' | 'IMPLIES'\<close> and the tagged union
  \<open>Formula\<close> of types.ts. The type fixes the keys of each variant and not their order,
  which an object keeps from the text it was parsed from or the literal that built it, and
  which \<open>JSON.stringify\<close> shows. So each node carries the order of its keys: two orders
  for the two keys of \<open>ATOM\<close> and of \<open>NOT\<close>, twenty-four for the four keys of \<open>BINARY\<close>,
  named by the initials of \<open>type\<close>, \<open>connective\<close>, \<open>left\<close> and \<open>right\<close>. Every place of
  the repository that builds a formula (the parser, the CI, DI and II branches of the
  engine and the initial state of the front end) writes \<open>type\<close> first and then the fields
  as the type lists them: \<open>TypeName\<close>, \<open>TypeFormula\<close> and \<open>TCLR\<close>.
\<close>

datatype connective = NOT | AND | OR | IMPLIES

datatype atomKeys = TypeName | NameType

datatype notKeys = TypeFormula | FormulaType

datatype binaryKeys =
    TCLR | TCRL | TLCR | TLRC | TRCL | TRLC
  | CTLR | CTRL | CLTR | CLRT | CRTL | CRLT
  | LTCR | LTRC | LCTR | LCRT | LRTC | LRCT
  | RTCL | RTLC | RCTL | RCLT | RLTC | RLCT

datatype formula =
    Atom atomKeys (name: js_string)
  | Not notKeys formula
  | Binary binaryKeys connective formula formula

text \<open>The members of an object in the order of its keys.\<close>

fun atomOrder :: "atomKeys \<Rightarrow> 'a \<Rightarrow> 'a \<Rightarrow> 'a list" where
  "atomOrder TypeName t n = [t, n]"
| "atomOrder NameType t n = [n, t]"

fun notOrder :: "notKeys \<Rightarrow> 'a \<Rightarrow> 'a \<Rightarrow> 'a list" where
  "notOrder TypeFormula t f = [t, f]"
| "notOrder FormulaType t f = [f, t]"

fun binaryOrder :: "binaryKeys \<Rightarrow> 'a \<Rightarrow> 'a \<Rightarrow> 'a \<Rightarrow> 'a \<Rightarrow> 'a list" where
  "binaryOrder TCLR t c l r = [t, c, l, r]"
| "binaryOrder TCRL t c l r = [t, c, r, l]"
| "binaryOrder TLCR t c l r = [t, l, c, r]"
| "binaryOrder TLRC t c l r = [t, l, r, c]"
| "binaryOrder TRCL t c l r = [t, r, c, l]"
| "binaryOrder TRLC t c l r = [t, r, l, c]"
| "binaryOrder CTLR t c l r = [c, t, l, r]"
| "binaryOrder CTRL t c l r = [c, t, r, l]"
| "binaryOrder CLTR t c l r = [c, l, t, r]"
| "binaryOrder CLRT t c l r = [c, l, r, t]"
| "binaryOrder CRTL t c l r = [c, r, t, l]"
| "binaryOrder CRLT t c l r = [c, r, l, t]"
| "binaryOrder LTCR t c l r = [l, t, c, r]"
| "binaryOrder LTRC t c l r = [l, t, r, c]"
| "binaryOrder LCTR t c l r = [l, c, t, r]"
| "binaryOrder LCRT t c l r = [l, c, r, t]"
| "binaryOrder LRTC t c l r = [l, r, t, c]"
| "binaryOrder LRCT t c l r = [l, r, c, t]"
| "binaryOrder RTCL t c l r = [r, t, c, l]"
| "binaryOrder RTLC t c l r = [r, t, l, c]"
| "binaryOrder RCTL t c l r = [r, c, t, l]"
| "binaryOrder RCLT t c l r = [r, c, l, t]"
| "binaryOrder RLTC t c l r = [r, l, t, c]"
| "binaryOrder RLCT t c l r = [r, l, c, t]"

fun connective_string :: "connective \<Rightarrow> js_string" where
  "connective_string NOT = ascii ''NOT''"
| "connective_string AND = ascii ''AND''"
| "connective_string OR = ascii ''OR''"
| "connective_string IMPLIES = ascii ''IMPLIES''"

text \<open>A formula as the object it is.\<close>

fun toJson :: "formula \<Rightarrow> json" where
  "toJson (Atom ks n) =
     JObject (atomOrder ks (ascii ''type'', JString (ascii ''ATOM'')) (ascii ''name'', JString n))"
| "toJson (Not ks f) =
     JObject (notOrder ks (ascii ''type'', JString (ascii ''NOT'')) (ascii ''formula'', toJson f))"
| "toJson (Binary ks c l r) =
     JObject (binaryOrder ks (ascii ''type'', JString (ascii ''BINARY''))
       (ascii ''connective'', JString (connective_string c))
       (ascii ''left'', toJson l) (ascii ''right'', toJson r))"

definition JSON_stringify :: "formula \<Rightarrow> js_string" where
  "JSON_stringify f = stringify (toJson f)"

text \<open>engine.ts, lines 10 to 12.\<close>

definition isFormulaEqual :: "formula \<Rightarrow> formula \<Rightarrow> bool" where
  "isFormulaEqual f1 f2 \<longleftrightarrow> JSON_stringify f1 = JSON_stringify f2"

text \<open>
  The reference the specification describes: exact recursive comparison of the variant
  tag and all fields. The order of the keys is no field.
\<close>

fun formula_eq_ref :: "formula \<Rightarrow> formula \<Rightarrow> bool" where
  "formula_eq_ref (Atom _ n) (Atom _ m) \<longleftrightarrow> n = m"
| "formula_eq_ref (Not _ f) (Not _ g) \<longleftrightarrow> formula_eq_ref f g"
| "formula_eq_ref (Binary _ c l r) (Binary _ c' l' r') \<longleftrightarrow>
     c = c' \<and> formula_eq_ref l l' \<and> formula_eq_ref r r'"
| "formula_eq_ref _ _ \<longleftrightarrow> False"

text \<open>
  What the comparison of serialisations sees beyond that: whether two formulas of the same
  shape write their keys in the same order at every node. And the formulas that write
  them in the order of the repository everywhere.
\<close>

fun sameKeyOrder :: "formula \<Rightarrow> formula \<Rightarrow> bool" where
  "sameKeyOrder (Atom ks _) (Atom ks' _) \<longleftrightarrow> ks = ks'"
| "sameKeyOrder (Not ks f) (Not ks' g) \<longleftrightarrow> ks = ks' \<and> sameKeyOrder f g"
| "sameKeyOrder (Binary ks _ l r) (Binary ks' _ l' r') \<longleftrightarrow>
     ks = ks' \<and> sameKeyOrder l l' \<and> sameKeyOrder r r'"
| "sameKeyOrder _ _ \<longleftrightarrow> False"

fun canonical :: "formula \<Rightarrow> bool" where
  "canonical (Atom ks _) \<longleftrightarrow> ks = TypeName"
| "canonical (Not ks f) \<longleftrightarrow> ks = TypeFormula \<and> canonical f"
| "canonical (Binary ks _ l r) \<longleftrightarrow> ks = TCLR \<and> canonical l \<and> canonical r"

section \<open>Numbers\<close>

text \<open>
  Ids, depths and \<open>nextId\<close> are JavaScript numbers, that is doubles. The data model of
  the specification makes them integers, and the engine compares them, takes the larger of
  two depths and adds 1 to \<open>nextId\<close>. An integer is a double when its magnitude needs at
  most 53 bits before trailing zeros; comparison and maximum of such numbers are exact,
  and a sum is the double nearest to the exact sum, a tie going to the even significand.
  \<open>ulpExponent a\<close> is the number of low bits a magnitude \<open>a\<close> loses to fit in 53 bits.
\<close>

function ulpExponent :: "nat \<Rightarrow> nat" where
  "ulpExponent a = (if a < 2 ^ 53 then 0 else Suc (ulpExponent (a div 2)))"
  by pat_completeness auto
termination
  by (relation "measure id") auto

declare ulpExponent.simps [simp del]

definition roundToDouble :: "int \<Rightarrow> int" where
  "roundToDouble x =
     (let a = nat \<bar>x\<bar>; e = ulpExponent a; q = a div 2 ^ e; r = a mod 2 ^ e in
      sgn x * int ((if 2 * r < 2 ^ e \<or> (2 * r = 2 ^ e \<and> even q) then q else q + 1) * 2 ^ e))"

text \<open>\<open>a + b\<close> on two numbers.\<close>

definition numberAdd :: "int \<Rightarrow> int \<Rightarrow> int" where
  "numberAdd a b = roundToDouble (a + b)"

section \<open>The proof state\<close>

text \<open>
  \<open>RuleName\<close>, \<open>ProofStep\<close> and \<open>ProofState\<close> of types.ts. The field \<open>id\<close> is
  \<open>step_id\<close> here; the optional \<open>isDischarged\<close> is an option. Ids, depths and
  \<open>nextId\<close> are numbers as in the section before.
\<close>

datatype RuleName = MP | CI | CE_LEFT | CE_RIGHT | DN | DI_LEFT | DI_RIGHT | DS | II | ASSUME

record ProofStep =
  step_id :: int
  formula :: formula
  rule :: RuleName
  justification :: "int list"
  depth :: int
  isDischarged :: "bool option"

record ProofState =
  "premises" :: "ProofStep list"
  goal :: formula
  currentSteps :: "ProofStep list"
  nextId :: int

text \<open>
  Every failure of the engine is a thrown \<open>Error\<close> with a message. The constructors
  stand for the messages: \<open>ArityMismatch\<close> for "... requires exactly ...",
  \<open>StepNotFound\<close> for "... not found.", \<open>MissingSecondaryFormula\<close> for "DI requires a
  secondary formula (Q) to be provided.", \<open>PatternMismatch\<close> for the closing throw of
  the MP, CE, DN and DS branches, \<open>NotImplemented\<close> for "Rule ... is not yet
  implemented.". \<open>TypeError\<close> is the error the language raises when a property of
  \<open>undefined\<close> is read. The lexer throws "Invalid character: c at position p" and
  "Unrecognized character: c at position p"; the parser throws "Expected ')' but found v",
  "Unexpected token: v" and "Unexpected token at end: v".
\<close>

datatype error =
    ArityMismatch
  | StepNotFound
  | MissingSecondaryFormula
  | PatternMismatch
  | NotImplemented
  | TypeError
  | InvalidCharacter code_unit nat
  | UnrecognizedCharacter code_unit nat
  | ExpectedCloseParen js_string
  | UnexpectedToken js_string
  | UnexpectedTokenAtEnd js_string

section \<open>The rule engine\<close>

text \<open>\<open>state.currentSteps.find(step => step.id === id)\<close>\<close>

definition findStep :: "ProofStep list \<Rightarrow> int \<Rightarrow> ProofStep option" where
  "findStep steps i = find (\<lambda>step. step_id step = i) steps"

text \<open>\<open>.filter((step): step is ProofStep => !!step)\<close>: the lookups that found a step.\<close>

fun found :: "'a option list \<Rightarrow> 'a list" where
  "found [] = []"
| "found (None # xs) = found xs"
| "found (Some x # xs) = x # found xs"

text \<open>
  \<open>{ ...state, currentSteps: [...steps, newStep], nextId: state.nextId + 1 }\<close>, the value
  every successful branch returns. The sum is a sum of numbers.
\<close>

definition appendStep :: "ProofState \<Rightarrow> ProofStep list \<Rightarrow> ProofStep \<Rightarrow> ProofState" where
  "appendStep state steps newStep =
     state\<lparr>currentSteps := steps @ [newStep], nextId := numberAdd (nextId state) 1\<rparr>"

text \<open>
  The test the MP branch makes twice, once for each premise as the implication: the
  formula is \<open>BINARY\<close> with connective \<open>IMPLIES\<close> and its left side equals the other
  premise; the result is the right side.
\<close>

definition mpConclusion :: "formula \<Rightarrow> formula \<Rightarrow> formula option" where
  "mpConclusion implication antecedent =
     (case implication of
        Binary _ IMPLIES l r \<Rightarrow> if isFormulaEqual l antecedent then Some r else None
      | _ \<Rightarrow> None)"

definition rule_MP :: "ProofState \<Rightarrow> RuleName \<Rightarrow> int list \<Rightarrow> error + ProofState" where
  "rule_MP state ruleName selectedStepIds =
     (if length selectedStepIds \<noteq> 2 then Inl ArityMismatch
      else
        let premises = found (map (findStep (currentSteps state)) selectedStepIds) in
        if length premises \<noteq> 2 then Inl StepNotFound
        else
          let p1 = premises ! 0; p2 = premises ! 1 in
          case mpConclusion (formula p1) (formula p2) of
            Some newFormula \<Rightarrow>
              Inr (appendStep state (currentSteps state)
                \<lparr>step_id = nextId state, formula = newFormula, rule = ruleName,
                 justification = selectedStepIds, depth = max (depth p1) (depth p2),
                 isDischarged = None\<rparr>)
          | None \<Rightarrow>
              (case mpConclusion (formula p2) (formula p1) of
                 Some newFormula \<Rightarrow>
                   Inr (appendStep state (currentSteps state)
                     \<lparr>step_id = nextId state, formula = newFormula, rule = ruleName,
                      justification = selectedStepIds, depth = max (depth p1) (depth p2),
                      isDischarged = None\<rparr>)
               | None \<Rightarrow> Inl PatternMismatch))"

text \<open>
  The CI branch has no test on the number of steps found. \<open>const [premiseA, premiseB] =
  premises\<close> leaves a missing one \<open>undefined\<close>, and reading its \<open>formula\<close> raises a
  \<open>TypeError\<close>.
\<close>

definition rule_CI :: "ProofState \<Rightarrow> RuleName \<Rightarrow> int list \<Rightarrow> error + ProofState" where
  "rule_CI state ruleName selectedStepIds =
     (if length selectedStepIds \<noteq> 2 then Inl ArityMismatch
      else
        let premises = found (map (findStep (currentSteps state)) selectedStepIds) in
        case premises of
          premiseA # premiseB # _ \<Rightarrow>
            Inr (appendStep state (currentSteps state)
              \<lparr>step_id = nextId state,
               formula = Binary TCLR AND (formula premiseA) (formula premiseB), rule = ruleName,
               justification = selectedStepIds,
               depth = max (depth premiseA) (depth premiseB), isDischarged = None\<rparr>)
        | _ \<Rightarrow> Inl TypeError)"

definition rule_CE :: "ProofState \<Rightarrow> RuleName \<Rightarrow> int list \<Rightarrow> error + ProofState" where
  "rule_CE state ruleName selectedStepIds =
     (if length selectedStepIds \<noteq> 1 then Inl ArityMismatch
      else
        case findStep (currentSteps state) (selectedStepIds ! 0) of
          None \<Rightarrow> Inl StepNotFound
        | Some premise \<Rightarrow>
            (case formula premise of
               Binary _ AND l r \<Rightarrow>
                 Inr (appendStep state (currentSteps state)
                   \<lparr>step_id = nextId state,
                    formula = (if ruleName = CE_LEFT then l else r), rule = ruleName,
                    justification = selectedStepIds, depth = depth premise,
                    isDischarged = None\<rparr>)
             | _ \<Rightarrow> Inl PatternMismatch))"

definition rule_DN :: "ProofState \<Rightarrow> RuleName \<Rightarrow> int list \<Rightarrow> error + ProofState" where
  "rule_DN state ruleName selectedStepIds =
     (if length selectedStepIds \<noteq> 1 then Inl ArityMismatch
      else
        case findStep (currentSteps state) (selectedStepIds ! 0) of
          None \<Rightarrow> Inl StepNotFound
        | Some premise \<Rightarrow>
            (case formula premise of
               Not _ (Not _ a) \<Rightarrow>
                 Inr (appendStep state (currentSteps state)
                   \<lparr>step_id = nextId state, formula = a, rule = ruleName,
                    justification = selectedStepIds, depth = depth premise,
                    isDischarged = None\<rparr>)
             | _ \<Rightarrow> Inl PatternMismatch))"

definition rule_DI ::
  "ProofState \<Rightarrow> RuleName \<Rightarrow> int list \<Rightarrow> formula option \<Rightarrow> error + ProofState" where
  "rule_DI state ruleName selectedStepIds newFormulaAst =
     (if length selectedStepIds \<noteq> 1 then Inl ArityMismatch
      else
        case newFormulaAst of
          None \<Rightarrow> Inl MissingSecondaryFormula
        | Some q \<Rightarrow>
            (case findStep (currentSteps state) (selectedStepIds ! 0) of
               None \<Rightarrow> Inl StepNotFound
             | Some premise \<Rightarrow>
                 Inr (appendStep state (currentSteps state)
                   \<lparr>step_id = nextId state,
                    formula = Binary TCLR OR (if ruleName = DI_LEFT then formula premise else q)
                                        (if ruleName = DI_LEFT then q else formula premise),
                    rule = ruleName, justification = selectedStepIds,
                    depth = depth premise, isDischarged = None\<rparr>)))"

text \<open>
  Step 1 of the DS branch: the pair (disjunctionFormulaCandidate,
  negationFormulaCandidate), or nothing when neither premise is a disjunction.
\<close>

definition dsCandidates :: "formula \<Rightarrow> formula \<Rightarrow> (formula \<times> formula) option" where
  "dsCandidates f1 f2 =
     (case f1 of
        Binary _ OR _ _ \<Rightarrow> Some (f1, f2)
      | _ \<Rightarrow> (case f2 of Binary _ OR _ _ \<Rightarrow> Some (f2, f1) | _ \<Rightarrow> None))"

definition rule_DS :: "ProofState \<Rightarrow> RuleName \<Rightarrow> int list \<Rightarrow> error + ProofState" where
  "rule_DS state ruleName selectedStepIds =
     (if length selectedStepIds \<noteq> 2 then Inl ArityMismatch
      else
        let premises = found (map (findStep (currentSteps state)) selectedStepIds) in
        if length premises \<noteq> 2 then Inl StepNotFound
        else
          let p1 = premises ! 0; p2 = premises ! 1 in
          case dsCandidates (formula p1) (formula p2) of
            Some (Binary _ c l r, Not _ negatedFormula) \<Rightarrow>
              (case (if isFormulaEqual l negatedFormula then Some r
                     else if isFormulaEqual r negatedFormula then Some l
                     else None) of
                 Some conclusion \<Rightarrow>
                   Inr (appendStep state (currentSteps state)
                     \<lparr>step_id = nextId state, formula = conclusion, rule = ruleName,
                      justification = selectedStepIds, depth = max (depth p1) (depth p2),
                      isDischarged = None\<rparr>)
               | None \<Rightarrow> Inl PatternMismatch)
          | _ \<Rightarrow> Inl PatternMismatch)"

text \<open>
  The II branch. Lines 347 to 362 decide which step is the assumption and which the
  conclusion. Both \<open>assumptionStep\<close> and \<open>conclusionStep\<close> are assigned on each of the
  paths, so the throw "Could not determine assumption and conclusion." cannot happen and
  has no branch here.
\<close>

definition assumptionAndConclusion :: "ProofStep \<Rightarrow> ProofStep \<Rightarrow> ProofStep \<times> ProofStep" where
  "assumptionAndConclusion stepA stepB =
     (if rule stepA = ASSUME \<and> rule stepB \<noteq> ASSUME then (stepA, stepB)
      else if rule stepB = ASSUME \<and> rule stepA \<noteq> ASSUME then (stepB, stepA)
      else if step_id stepA < step_id stepB then (stepA, stepB)
      else (stepB, stepA))"

text \<open>
  The function mapped over \<open>state.currentSteps\<close>: a step with the assumption's id is
  replaced by \<open>{ ...step, isDischarged: true }\<close>, any other step is returned as it is.
\<close>

definition discharge :: "int \<Rightarrow> ProofStep \<Rightarrow> ProofStep" where
  "discharge assumptionId step =
     (if step_id step = assumptionId then step\<lparr>isDischarged := Some True\<rparr> else step)"

definition rule_II :: "ProofState \<Rightarrow> int list \<Rightarrow> error + ProofState" where
  "rule_II state selectedStepIds =
     (if length selectedStepIds \<noteq> 2 then Inl ArityMismatch
      else
        case (findStep (currentSteps state) (selectedStepIds ! 0),
              findStep (currentSteps state) (selectedStepIds ! 1)) of
          (Some stepA, Some stepB) \<Rightarrow>
            let (assumptionStep, conclusionStep) = assumptionAndConclusion stepA stepB;
                newStep =
                  \<lparr>step_id = nextId state,
                   formula = Binary TCLR IMPLIES (formula assumptionStep) (formula conclusionStep),
                   rule = II,
                   justification = [step_id assumptionStep, step_id conclusionStep],
                   depth = 0, isDischarged = Some False\<rparr>;
                updatedSteps = map (discharge (step_id assumptionStep)) (currentSteps state)
            in Inr (appendStep state updatedSteps newStep)
        | _ \<Rightarrow> Inl StepNotFound)"

text \<open>\<open>applyRule\<close>, engine.ts lines 21 to 407: the chain of tests on the rule name.\<close>

definition applyRule ::
  "ProofState \<Rightarrow> RuleName \<Rightarrow> int list \<Rightarrow> formula option \<Rightarrow> error + ProofState" where
  "applyRule state ruleName selectedStepIds newFormulaAst =
     (if ruleName = MP then rule_MP state ruleName selectedStepIds
      else if ruleName = CI then rule_CI state ruleName selectedStepIds
      else if ruleName = CE_LEFT \<or> ruleName = CE_RIGHT then rule_CE state ruleName selectedStepIds
      else if ruleName = DN then rule_DN state ruleName selectedStepIds
      else if ruleName = DI_LEFT \<or> ruleName = DI_RIGHT
        then rule_DI state ruleName selectedStepIds newFormulaAst
      else if ruleName = DS then rule_DS state ruleName selectedStepIds
      else if ruleName = II then rule_II state selectedStepIds
      else Inl NotImplemented)"

section \<open>The lexer\<close>

text \<open>
  \<open>TokenType\<close> and \<open>Token\<close> of types.ts. The connectives already own the names \<open>NOT\<close>,
  \<open>AND\<close>, \<open>OR\<close> and \<open>IMPLIES\<close>, so the token types of these names carry the prefix
  \<open>T_\<close>.
\<close>

datatype TokenType =
  PROPOSITION | T_IMPLIES | T_AND | T_OR | T_NOT | LEFT_PAREN | RIGHT_PAREN | EOF

record Token =
  tokenType :: TokenType
  tokenValue :: js_string

text \<open>
  \<open>/\s/.test(char)\<close> on a string of one code unit: the white space and line terminator
  units of ECMA-262.
\<close>

definition isWhitespace :: "code_unit \<Rightarrow> bool" where
  "isWhitespace c \<longleftrightarrow>
     c \<in> {0x09, 0x0A, 0x0B, 0x0C, 0x0D, 0x20, 0xA0, 0x1680, 0x2028, 0x2029, 0x202F, 0x205F,
          0x3000, 0xFEFF} \<or> (0x2000 \<le> c \<and> c \<le> 0x200A)"

text \<open>\<open>/[A-Z]/.test(char)\<close>\<close>

definition isUpper :: "code_unit \<Rightarrow> bool" where
  "isUpper c \<longleftrightarrow> 0x41 \<le> c \<and> c \<le> 0x5A"

text \<open>
  The loop of \<open>tokenize\<close> (engine.js, lines 270 to 325) with its two variables,
  \<open>position\<close> and \<open>tokens\<close>. The units tested are \<open>(\<close> 0x28, \<open>)\<close> 0x29, \<open>~\<close> 0x7E,
  \<open>\<not>\<close> 0xAC, \<open>\<and>\<close> 0x2227, \<open>\<or>\<close> 0x2228, \<open>-\<close> 0x2D, \<open>>\<close> 0x3E and \<open>\<rightarrow>\<close> 0x2192.
  \<open>input[position + 1]\<close> is \<open>undefined\<close> past the end of the input, which is not \<open>>\<close>.
\<close>

function tokenize_loop :: "js_string \<Rightarrow> nat \<Rightarrow> Token list \<Rightarrow> error + Token list" where
  "tokenize_loop input position tokens =
     (if position < length input then
        (let char = input ! position in
         if isWhitespace char then tokenize_loop input (position + 1) tokens
         else if char = 0x28 then
           tokenize_loop input (position + 1)
             (tokens @ [\<lparr>tokenType = LEFT_PAREN, tokenValue = [char]\<rparr>])
         else if char = 0x29 then
           tokenize_loop input (position + 1)
             (tokens @ [\<lparr>tokenType = RIGHT_PAREN, tokenValue = [char]\<rparr>])
         else if char = 0x7E \<or> char = 0xAC then
           tokenize_loop input (position + 1)
             (tokens @ [\<lparr>tokenType = T_NOT, tokenValue = [char]\<rparr>])
         else if char = 0x2227 then
           tokenize_loop input (position + 1)
             (tokens @ [\<lparr>tokenType = T_AND, tokenValue = [char]\<rparr>])
         else if char = 0x2228 then
           tokenize_loop input (position + 1)
             (tokens @ [\<lparr>tokenType = T_OR, tokenValue = [char]\<rparr>])
         else if char = 0x2D then
           (if position + 1 < length input \<and> input ! (position + 1) = 0x3E then
              tokenize_loop input (position + 2)
                (tokens @ [\<lparr>tokenType = T_IMPLIES, tokenValue = ascii ''->''\<rparr>])
            else Inl (InvalidCharacter char position))
         else if char = 0x2192 then
           tokenize_loop input (position + 1)
             (tokens @ [\<lparr>tokenType = T_IMPLIES, tokenValue = [char]\<rparr>])
         else if isUpper char then
           tokenize_loop input (position + 1)
             (tokens @ [\<lparr>tokenType = PROPOSITION, tokenValue = [char]\<rparr>])
         else Inl (UnrecognizedCharacter char position))
      else Inr (tokens @ [\<lparr>tokenType = EOF, tokenValue = []\<rparr>]))"
  by pat_completeness auto
termination
  by (relation "measure (\<lambda>(input, position, tokens). length input - position)") auto

declare tokenize_loop.simps [simp del]

definition tokenize :: "js_string \<Rightarrow> error + Token list" where
  "tokenize input = tokenize_loop input 0 []"

text \<open>
  For the claim on the \<open>IMPLIES\<close> tokens: the values of the \<open>IMPLIES\<close> tokens of a token
  list, and the lexemes that the units \<open>-\<close> and \<open>\<rightarrow>\<close> of an input stand for.
\<close>

definition impliesValues :: "Token list \<Rightarrow> js_string list" where
  "impliesValues tokens = map tokenValue (filter (\<lambda>t. tokenType t = T_IMPLIES) tokens)"

definition impliesLexemes :: "js_string \<Rightarrow> js_string list" where
  "impliesLexemes input =
     map (\<lambda>c. if c = 0x2D then ascii ''->'' else [c]) (filter (\<lambda>c. c = 0x2D \<or> c = 0x2192) input)"

section \<open>The parser\<close>

text \<open>
  \<open>parse\<close> (engine.js, lines 335 to 421) keeps one variable, \<open>currentTokenIndex\<close>; each
  parsing function here takes the index and returns the formula with the index it has
  reached. \<open>peek\<close> is \<open>tokens[currentTokenIndex]\<close>, which is \<open>undefined\<close> past the end of
  the array; reading \<open>type\<close> of it raises a \<open>TypeError\<close>.
\<close>

definition peek :: "Token list \<Rightarrow> nat \<Rightarrow> Token option" where
  "peek tokens currentTokenIndex =
     (if currentTokenIndex < length tokens then Some (tokens ! currentTokenIndex) else None)"

text \<open>
  Each \<open>while\<close> loop is a function of its own, with the variable \<open>left\<close> of the loop as
  an argument. In the loops for \<open>OR\<close> and \<open>AND\<close> the connective of the new node is
  \<open>peek().type\<close>, read when it has just been tested to be \<open>'OR'\<close>, or \<open>'AND'\<close>.
  Every object literal of the parser writes \<open>type\<close> first and the fields after it in
  the order of the type: \<open>TCLR\<close>, \<open>TypeFormula\<close> and \<open>TypeName\<close>.
\<close>

function parseImplication :: "Token list \<Rightarrow> nat \<Rightarrow> error + formula \<times> nat"
  and implicationLoop :: "Token list \<Rightarrow> formula \<Rightarrow> nat \<Rightarrow> error + formula \<times> nat"
  and parseDisjunction :: "Token list \<Rightarrow> nat \<Rightarrow> error + formula \<times> nat"
  and disjunctionLoop :: "Token list \<Rightarrow> formula \<Rightarrow> nat \<Rightarrow> error + formula \<times> nat"
  and parseConjunction :: "Token list \<Rightarrow> nat \<Rightarrow> error + formula \<times> nat"
  and conjunctionLoop :: "Token list \<Rightarrow> formula \<Rightarrow> nat \<Rightarrow> error + formula \<times> nat"
  and parseUnary :: "Token list \<Rightarrow> nat \<Rightarrow> error + formula \<times> nat"
where
  "parseImplication tokens i =
     (case parseDisjunction tokens i of
        Inl e \<Rightarrow> Inl e
      | Inr (left, j) \<Rightarrow> implicationLoop tokens left j)"
| "implicationLoop tokens left i =
     (case peek tokens i of
        None \<Rightarrow> Inl TypeError
      | Some t \<Rightarrow>
          if tokenType t = T_IMPLIES then
            (case parseImplication tokens (i + 1) of
               Inl e \<Rightarrow> Inl e
             | Inr (right, j) \<Rightarrow> implicationLoop tokens (Binary TCLR IMPLIES left right) j)
          else Inr (left, i))"
| "parseDisjunction tokens i =
     (case parseConjunction tokens i of
        Inl e \<Rightarrow> Inl e
      | Inr (left, j) \<Rightarrow> disjunctionLoop tokens left j)"
| "disjunctionLoop tokens left i =
     (case peek tokens i of
        None \<Rightarrow> Inl TypeError
      | Some t \<Rightarrow>
          if tokenType t = T_OR then
            (case parseConjunction tokens (i + 1) of
               Inl e \<Rightarrow> Inl e
             | Inr (right, j) \<Rightarrow> disjunctionLoop tokens (Binary TCLR OR left right) j)
          else Inr (left, i))"
| "parseConjunction tokens i =
     (case parseUnary tokens i of
        Inl e \<Rightarrow> Inl e
      | Inr (left, j) \<Rightarrow> conjunctionLoop tokens left j)"
| "conjunctionLoop tokens left i =
     (case peek tokens i of
        None \<Rightarrow> Inl TypeError
      | Some t \<Rightarrow>
          if tokenType t = T_AND then
            (case parseUnary tokens (i + 1) of
               Inl e \<Rightarrow> Inl e
             | Inr (right, j) \<Rightarrow> conjunctionLoop tokens (Binary TCLR AND left right) j)
          else Inr (left, i))"
| "parseUnary tokens i =
     (case peek tokens i of
        None \<Rightarrow> Inl TypeError
      | Some token \<Rightarrow>
          if tokenType token = T_NOT then
            (case parseUnary tokens (i + 1) of
               Inl e \<Rightarrow> Inl e
             | Inr (formula', j) \<Rightarrow> Inr (Not TypeFormula formula', j))
          else if tokenType token = LEFT_PAREN then
            (case parseImplication tokens (i + 1) of
               Inl e \<Rightarrow> Inl e
             | Inr (formula', j) \<Rightarrow>
                 (case peek tokens j of
                    None \<Rightarrow> Inl TypeError
                  | Some t \<Rightarrow>
                      if tokenType t \<noteq> RIGHT_PAREN then Inl (ExpectedCloseParen (tokenValue t))
                      else Inr (formula', j + 1)))
          else if tokenType token = PROPOSITION then Inr (Atom TypeName (tokenValue token), i + 1)
          else Inl (UnexpectedToken (tokenValue token)))"
  by pat_completeness auto


text \<open>
  Termination. No call moves the index back: on its domain each function returns an index
  that is at least the index it was given. With that, the number of tokens from the index
  on and then the rank of the function in the ladder decrease along the calls.
\<close>

lemma parse_index_mono:
  shows "parseImplication_implicationLoop_parseDisjunction_disjunctionLoop_parseConjunction_conjunctionLoop_parseUnary_dom (Inl (Inl (tokens, i))) \<Longrightarrow>
      parseImplication tokens i = Inr (f, j) \<Longrightarrow> i \<le> j"
    and "parseImplication_implicationLoop_parseDisjunction_disjunctionLoop_parseConjunction_conjunctionLoop_parseUnary_dom (Inl (Inr (Inl (tokens, left, i)))) \<Longrightarrow>
      implicationLoop tokens left i = Inr (f, j) \<Longrightarrow> i \<le> j"
    and "parseImplication_implicationLoop_parseDisjunction_disjunctionLoop_parseConjunction_conjunctionLoop_parseUnary_dom (Inl (Inr (Inr (tokens, i)))) \<Longrightarrow>
      parseDisjunction tokens i = Inr (f, j) \<Longrightarrow> i \<le> j"
    and "parseImplication_implicationLoop_parseDisjunction_disjunctionLoop_parseConjunction_conjunctionLoop_parseUnary_dom (Inr (Inl (Inl (tokens, left, i)))) \<Longrightarrow>
      disjunctionLoop tokens left i = Inr (f, j) \<Longrightarrow> i \<le> j"
    and "parseImplication_implicationLoop_parseDisjunction_disjunctionLoop_parseConjunction_conjunctionLoop_parseUnary_dom (Inr (Inl (Inr (tokens, i)))) \<Longrightarrow>
      parseConjunction tokens i = Inr (f, j) \<Longrightarrow> i \<le> j"
    and "parseImplication_implicationLoop_parseDisjunction_disjunctionLoop_parseConjunction_conjunctionLoop_parseUnary_dom (Inr (Inr (Inl (tokens, left, i)))) \<Longrightarrow>
      conjunctionLoop tokens left i = Inr (f, j) \<Longrightarrow> i \<le> j"
    and "parseImplication_implicationLoop_parseDisjunction_disjunctionLoop_parseConjunction_conjunctionLoop_parseUnary_dom (Inr (Inr (Inr (tokens, i)))) \<Longrightarrow>
      parseUnary tokens i = Inr (f, j) \<Longrightarrow> i \<le> j"
proof (induct arbitrary: f j and f j and f j and f j and f j and f j and f j
    rule: parseImplication_implicationLoop_parseDisjunction_disjunctionLoop_parseConjunction_conjunctionLoop_parseUnary.pinduct)
  case (1 tokens i)
  from "1.prems" "1.hyps"(1) obtain a b where
    d: "parseDisjunction tokens i = Inr (a, b)" and l: "implicationLoop tokens a b = Inr (f, j)"
    by (auto simp: parseImplication.psimps split: sum.splits)
  from "1.hyps"(2) [OF d] "1.hyps"(3) [OF d refl l] show ?case by simp
next
  case (2 tokens left i)
  from "2.hyps"(1) have eq: "implicationLoop tokens left i =
     (case peek tokens i of
        None \<Rightarrow> Inl TypeError
      | Some t \<Rightarrow>
          if tokenType t = T_IMPLIES then
            (case parseImplication tokens (i + 1) of
               Inl e \<Rightarrow> Inl e
             | Inr (right, j) \<Rightarrow> implicationLoop tokens (Binary TCLR IMPLIES left right) j)
          else Inr (left, i))"
    by (rule implicationLoop.psimps)
  from "2.prems" obtain t where t: "peek tokens i = Some t"
    unfolding eq by (auto split: option.splits)
  show ?case
  proof (cases "tokenType t = T_IMPLIES")
    case True
    with "2.prems" t obtain a b where
      d: "parseImplication tokens (i + 1) = Inr (a, b)"
      and l: "implicationLoop tokens (Binary TCLR IMPLIES left a) b = Inr (f, j)"
      unfolding eq by (auto split: sum.splits)
    from "2.hyps"(2) [OF t True d] "2.hyps"(3) [OF t True d refl l] show ?thesis by simp
  next
    case False
    with "2.prems" t show ?thesis unfolding eq by simp
  qed
next
  case (3 tokens i)
  from "3.prems" "3.hyps"(1) obtain a b where
    d: "parseConjunction tokens i = Inr (a, b)" and l: "disjunctionLoop tokens a b = Inr (f, j)"
    by (auto simp: parseDisjunction.psimps split: sum.splits)
  from "3.hyps"(2) [OF d] "3.hyps"(3) [OF d refl l] show ?case by simp
next
  case (4 tokens left i)
  from "4.hyps"(1) have eq: "disjunctionLoop tokens left i =
     (case peek tokens i of
        None \<Rightarrow> Inl TypeError
      | Some t \<Rightarrow>
          if tokenType t = T_OR then
            (case parseConjunction tokens (i + 1) of
               Inl e \<Rightarrow> Inl e
             | Inr (right, j) \<Rightarrow> disjunctionLoop tokens (Binary TCLR OR left right) j)
          else Inr (left, i))"
    by (rule disjunctionLoop.psimps)
  from "4.prems" obtain t where t: "peek tokens i = Some t"
    unfolding eq by (auto split: option.splits)
  show ?case
  proof (cases "tokenType t = T_OR")
    case True
    with "4.prems" t obtain a b where
      d: "parseConjunction tokens (i + 1) = Inr (a, b)"
      and l: "disjunctionLoop tokens (Binary TCLR OR left a) b = Inr (f, j)"
      unfolding eq by (auto split: sum.splits)
    from "4.hyps"(2) [OF t True d] "4.hyps"(3) [OF t True d refl l] show ?thesis by simp
  next
    case False
    with "4.prems" t show ?thesis unfolding eq by simp
  qed
next
  case (5 tokens i)
  from "5.prems" "5.hyps"(1) obtain a b where
    d: "parseUnary tokens i = Inr (a, b)" and l: "conjunctionLoop tokens a b = Inr (f, j)"
    by (auto simp: parseConjunction.psimps split: sum.splits)
  from "5.hyps"(2) [OF d] "5.hyps"(3) [OF d refl l] show ?case by simp
next
  case (6 tokens left i)
  from "6.hyps"(1) have eq: "conjunctionLoop tokens left i =
     (case peek tokens i of
        None \<Rightarrow> Inl TypeError
      | Some t \<Rightarrow>
          if tokenType t = T_AND then
            (case parseUnary tokens (i + 1) of
               Inl e \<Rightarrow> Inl e
             | Inr (right, j) \<Rightarrow> conjunctionLoop tokens (Binary TCLR AND left right) j)
          else Inr (left, i))"
    by (rule conjunctionLoop.psimps)
  from "6.prems" obtain t where t: "peek tokens i = Some t"
    unfolding eq by (auto split: option.splits)
  show ?case
  proof (cases "tokenType t = T_AND")
    case True
    with "6.prems" t obtain a b where
      d: "parseUnary tokens (i + 1) = Inr (a, b)"
      and l: "conjunctionLoop tokens (Binary TCLR AND left a) b = Inr (f, j)"
      unfolding eq by (auto split: sum.splits)
    from "6.hyps"(2) [OF t True d] "6.hyps"(3) [OF t True d refl l] show ?thesis by simp
  next
    case False
    with "6.prems" t show ?thesis unfolding eq by simp
  qed
next
  case (7 tokens i)
  note eq = parseUnary.psimps [OF "7.hyps"(1)]
  from "7.prems" obtain t where t: "peek tokens i = Some t"
    unfolding eq by (auto split: option.splits)
  consider (n) "tokenType t = T_NOT"
    | (p) "tokenType t \<noteq> T_NOT" "tokenType t = LEFT_PAREN"
    | (o) "tokenType t \<noteq> T_NOT" "tokenType t \<noteq> LEFT_PAREN"
    by blast
  then show ?case
  proof cases
    case n
    with "7.prems" t obtain a where d: "parseUnary tokens (i + 1) = Inr (a, j)"
      unfolding eq by (auto split: sum.splits)
    from "7.hyps"(2) [OF t n d] show ?thesis by simp
  next
    case p
    with "7.prems" t obtain a b where d: "parseImplication tokens (i + 1) = Inr (a, b)"
      and j: "j = b + 1"
      unfolding eq by (auto split: sum.splits option.splits if_splits)
    from "7.hyps"(3) [OF t p d] j show ?thesis by simp
  next
    case o
    with "7.prems" t show ?thesis unfolding eq by (auto split: if_splits)
  qed
qed


termination parseImplication
proof (relation "measures
    [case_sum (case_sum (\<lambda>(tokens, i). length tokens - i)
                (case_sum (\<lambda>(tokens, left, i). length tokens - i) (\<lambda>(tokens, i). length tokens - i)))
       (case_sum (case_sum (\<lambda>(tokens, left, i). length tokens - i) (\<lambda>(tokens, i). length tokens - i))
                (case_sum (\<lambda>(tokens, left, i). length tokens - i) (\<lambda>(tokens, i). length tokens - i))),
     case_sum (case_sum (\<lambda>_. 6) (case_sum (\<lambda>_. 5) (\<lambda>_. 4)))
       (case_sum (case_sum (\<lambda>_. 3) (\<lambda>_. 2)) (case_sum (\<lambda>_. 1) (\<lambda>_. 0)))]",
    goal_cases)
  case 1
  show ?case by simp
next
  case (2 tokens i)
  show ?case by simp
next
  case (3 tokens i b x y)
  then show ?case using parse_index_mono(3) [of tokens i x y] by auto
next
  case (4 tokens left i x2)
  then show ?case by (auto simp: peek_def split: if_splits)
next
  case (5 tokens left i x2 b x y)
  then show ?case using parse_index_mono(1) [of tokens "i + 1" x y]
    by (auto simp: peek_def split: if_splits)
next
  case (6 tokens i)
  show ?case by simp
next
  case (7 tokens i b x y)
  then show ?case using parse_index_mono(5) [of tokens i x y] by auto
next
  case (8 tokens left i x2)
  then show ?case by (auto simp: peek_def split: if_splits)
next
  case (9 tokens left i x2 b x y)
  then show ?case using parse_index_mono(5) [of tokens "i + 1" x y]
    by (auto simp: peek_def split: if_splits)
next
  case (10 tokens i)
  show ?case by simp
next
  case (11 tokens i b x y)
  then show ?case using parse_index_mono(7) [of tokens i x y] by auto
next
  case (12 tokens left i x2)
  then show ?case by (auto simp: peek_def split: if_splits)
next
  case (13 tokens left i x2 b x y)
  then show ?case using parse_index_mono(7) [of tokens "i + 1" x y]
    by (auto simp: peek_def split: if_splits)
next
  case (14 tokens i x2)
  then show ?case by (auto simp: peek_def split: if_splits)
next
  case (15 tokens i x2)
  then show ?case by (auto simp: peek_def split: if_splits)
qed


declare parseImplication.simps [simp del] implicationLoop.simps [simp del]
  parseDisjunction.simps [simp del] disjunctionLoop.simps [simp del]
  parseConjunction.simps [simp del] conjunctionLoop.simps [simp del]
  parseUnary.simps [simp del]

text \<open>The body of \<open>parse\<close> after the definitions of its local functions.\<close>

definition parse :: "Token list \<Rightarrow> error + formula" where
  "parse tokens =
     (case parseImplication tokens 0 of
        Inl e \<Rightarrow> Inl e
      | Inr (formula', i) \<Rightarrow>
          (case peek tokens i of
             None \<Rightarrow> Inl TypeError
           | Some t \<Rightarrow>
               if tokenType t \<noteq> EOF then Inl (UnexpectedTokenAtEnd (tokenValue t))
               else Inr formula'))"

text \<open>
  The two calls of the handler of \<open>/api/parse\<close> in server.ts: \<open>tokenize\<close>, then \<open>parse\<close> on
  its tokens. The specification calls the composition \<open>parseFormula\<close>.
\<close>

definition parseFormula :: "js_string \<Rightarrow> error + formula" where
  "parseFormula formulaString =
     (case tokenize formulaString of Inl e \<Rightarrow> Inl e | Inr tokens \<Rightarrow> parse tokens)"

section \<open>The patterns of the rule table\<close>

text \<open>
  The patterns of the rule table, in its words. A step's formula "is \<open>Implies(A, B)\<close>"
  when its tag is \<open>BINARY\<close>, its connective \<open>IMPLIES\<close> and its two sides are \<open>A\<close> and
  \<open>B\<close>; the engine reads these by their keys, in whatever order the node keeps them.
  Likewise for \<open>Or(A, B)\<close> and \<open>Not(X)\<close>.
\<close>

definition isImplies :: "formula \<Rightarrow> formula \<Rightarrow> formula \<Rightarrow> bool" where
  "isImplies f A B \<longleftrightarrow> (case f of Binary _ IMPLIES l r \<Rightarrow> l = A \<and> r = B | _ \<Rightarrow> False)"

definition isOr :: "formula \<Rightarrow> formula \<Rightarrow> formula \<Rightarrow> bool" where
  "isOr f A B \<longleftrightarrow> (case f of Binary _ OR l r \<Rightarrow> l = A \<and> r = B | _ \<Rightarrow> False)"

definition isNot :: "formula \<Rightarrow> formula \<Rightarrow> bool" where
  "isNot f X \<longleftrightarrow> (case f of Not _ x \<Rightarrow> x = X | _ \<Rightarrow> False)"

text \<open>
  What the comparison of serialisations tests between two formulas: structural equality
  together with the same order of keys at every node.
\<close>

definition sameObject :: "formula \<Rightarrow> formula \<Rightarrow> bool" where
  "sameObject f g \<longleftrightarrow> formula_eq_ref f g \<and> sameKeyOrder f g"

text \<open>
  The pattern for DS: one premise is \<open>Or(A, B)\<close> and the other is \<open>Not(X)\<close>, in either
  assignment of the two steps.
\<close>

definition dsPattern :: "formula \<Rightarrow> formula \<Rightarrow> formula \<Rightarrow> formula \<Rightarrow> formula \<Rightarrow> bool" where
  "dsPattern f g A B X \<longleftrightarrow> (isOr f A B \<and> isNot g X \<or> isOr g A B \<and> isNot f X)"

text \<open>
  The discharge rule for II, in the specification's words: if exactly one of the two
  steps has rule \<open>ASSUME\<close>, that one is the assumption and the other the conclusion;
  otherwise the step with the smaller id is the assumption. (Two steps found under
  different ids have different ids; under one id they are the same step.)
\<close>

definition chooseAssumption :: "ProofStep \<Rightarrow> ProofStep \<Rightarrow> ProofStep \<times> ProofStep" where
  "chooseAssumption a b =
     (if (rule a = ASSUME) \<noteq> (rule b = ASSUME)
      then (if rule a = ASSUME then (a, b) else (b, a))
      else (if step_id a < step_id b then (a, b) else (b, a)))"

section \<open>Example states\<close>

text \<open>
  The initial proof state of the front end: line 1 is \<open>P \<rightarrow> Q\<close>, line 2 is \<open>P\<close>, both
  tagged \<open>ASSUME\<close>, and the next id is 3.
\<close>

definition step1 :: ProofStep where
  "step1 = \<lparr>step_id = 1,
     formula = Binary TCLR IMPLIES (Atom TypeName (ascii ''P'')) (Atom TypeName (ascii ''Q'')),
     rule = ASSUME, justification = [], depth = 0, isDischarged = None\<rparr>"

definition step2 :: ProofStep where
  "step2 = \<lparr>step_id = 2, formula = Atom TypeName (ascii ''P''),
     rule = ASSUME, justification = [], depth = 0, isDischarged = None\<rparr>"

definition INITIAL_PROOF_STATE :: ProofState where
  "INITIAL_PROOF_STATE = \<lparr>premises = [], goal = Atom TypeName (ascii ''Q''),
     currentSteps = [step1, step2], nextId = 3\<rparr>"

text \<open>The state after MP on lines 1 and 2: line 3 is \<open>Q\<close>.\<close>

definition step3 :: ProofStep where
  "step3 = \<lparr>step_id = 3, formula = Atom TypeName (ascii ''Q''),
     rule = MP, justification = [1, 2], depth = 0, isDischarged = None\<rparr>"

definition afterMP :: ProofState where
  "afterMP = \<lparr>premises = [], goal = Atom TypeName (ascii ''Q''),
     currentSteps = [step1, step2, step3], nextId = 4\<rparr>"

text \<open>
  The state after II on lines 2 and 3 of \<open>afterMP\<close>: line 2 is discharged and line 4 is
  \<open>P \<rightarrow> Q\<close>. And the state after the same II once more: line 5 repeats line 4.
\<close>

definition step4 :: ProofStep where
  "step4 = \<lparr>step_id = 4,
     formula = Binary TCLR IMPLIES (Atom TypeName (ascii ''P'')) (Atom TypeName (ascii ''Q'')),
     rule = II, justification = [2, 3], depth = 0, isDischarged = Some False\<rparr>"

definition afterII :: ProofState where
  "afterII = \<lparr>premises = [], goal = Atom TypeName (ascii ''Q''),
     currentSteps = [step1, step2\<lparr>isDischarged := Some True\<rparr>, step3, step4], nextId = 5\<rparr>"

definition afterSecondII :: ProofState where
  "afterSecondII = \<lparr>premises = [], goal = Atom TypeName (ascii ''Q''),
     currentSteps = [step1, step2\<lparr>isDischarged := Some True\<rparr>, step3, step4,
       step4\<lparr>step_id := 5\<rparr>], nextId = 6\<rparr>"

text \<open>
  A state for DS: line 1 is \<open>P \<or> Q\<close>, line 2 is \<open>\<not>P\<close>, line 3 is \<open>\<not>R\<close>, line 4 is
  \<open>\<not>Q\<close>.
\<close>

definition dsState :: ProofState where
  "dsState = \<lparr>premises = [], goal = Atom TypeName (ascii ''Q''),
     currentSteps =
       [\<lparr>step_id = 1,
          formula = Binary TCLR OR (Atom TypeName (ascii ''P'')) (Atom TypeName (ascii ''Q'')),
          rule = ASSUME, justification = [], depth = 0, isDischarged = None\<rparr>,
        \<lparr>step_id = 2, formula = Not TypeFormula (Atom TypeName (ascii ''P'')),
          rule = ASSUME, justification = [], depth = 1, isDischarged = None\<rparr>,
        \<lparr>step_id = 3, formula = Not TypeFormula (Atom TypeName (ascii ''R'')),
          rule = ASSUME, justification = [], depth = 0, isDischarged = None\<rparr>,
        \<lparr>step_id = 4, formula = Not TypeFormula (Atom TypeName (ascii ''Q'')),
          rule = ASSUME, justification = [], depth = 0, isDischarged = None\<rparr>],
     nextId = 5\<rparr>"

text \<open>
  The initial state as a client may send it with the keys of line 2 in the other order,
  \<open>{"name":"P","type":"ATOM"}\<close>: the same tag and the same name.
\<close>

definition step2Permuted :: ProofStep where
  "step2Permuted = step2\<lparr>formula := Atom NameType (ascii ''P'')\<rparr>"

definition permutedState :: ProofState where
  "permutedState = INITIAL_PROOF_STATE\<lparr>currentSteps := [step1, step2Permuted]\<rparr>"

text \<open>
  The state for DS with \<open>\<not>P\<close> of line 2 written \<open>{"type":"NOT","formula":{"name":"P",
  "type":"ATOM"}}\<close>.
\<close>

definition dsPermuted :: ProofState where
  "dsPermuted = dsState\<lparr>currentSteps :=
     (currentSteps dsState)
       [1 := (currentSteps dsState ! 1)
          \<lparr>formula := Not TypeFormula (Atom NameType (ascii ''P''))\<rparr>]\<rparr>"

text \<open>
  The initial state with \<open>nextId\<close> 9007199254740992, which is 2 to the power 53, a
  number that JSON carries exactly.
\<close>

definition bigState :: ProofState where
  "bigState = INITIAL_PROOF_STATE\<lparr>nextId := 2 ^ 53\<rparr>"

text \<open>
  What MP on lines 1 and 2 returns for it: the new step has the id 2 to the power 53, and
  so has \<open>nextId\<close>.
\<close>

definition bigAfter :: ProofState where
  "bigAfter = bigState\<lparr>currentSteps := [step1, step2, step3\<lparr>step_id := 2 ^ 53\<rparr>]\<rparr>"

section \<open>The shape of a successful call\<close>

text \<open>
  \<open>appended state state'\<close>: \<open>state'\<close> is \<open>state\<close> with one step of id \<open>nextId state\<close> appended;
  \<open>appendedII\<close>: the same after \<open>discharge a\<close> on the existing steps.
\<close>

definition appended :: "ProofState \<Rightarrow> ProofState \<Rightarrow> bool" where
  "appended state state' \<longleftrightarrow>
     (\<exists>newStep. step_id newStep = nextId state \<and>
        state' = appendStep state (currentSteps state) newStep)"

definition appendedII :: "ProofState \<Rightarrow> ProofState \<Rightarrow> bool" where
  "appendedII state state' \<longleftrightarrow>
     (\<exists>newStep a. step_id newStep = nextId state \<and>
        state' = appendStep state (map (discharge a) (currentSteps state)) newStep)"

section \<open>The serialisation is injective\<close>

lemma unat_hex_digit:
  "a < 16 \<Longrightarrow> unat (hex_digit a) = (if a < 10 then 48 + a else 87 + a)"
  by (simp add: hex_digit_def unat_of_nat del: of_nat_add)

lemma hex_digit_inj:
  assumes "a < 16" "b < 16" "hex_digit a = hex_digit b"
  shows "a = b"
proof -
  have "unat (hex_digit a) = unat (hex_digit b)" using assms(3) by simp
  then show ?thesis using assms(1,2) by (simp add: unat_hex_digit split: if_splits)
qed

lemma nibbles:
  fixes n :: nat
  assumes "n < 65536"
  shows "n = 4096 * (n div 4096 mod 16) + 256 * (n div 256 mod 16) + 16 * (n div 16 mod 16) + n mod 16"
proof -
  define a where "a = n div 16"
  define b where "b = a div 16"
  define c where "c = b div 16"
  have e1: "n div 256 = b" using div_mult2_eq [of n 16 16] by (simp add: a_def b_def)
  have e2: "n div 4096 = c" using div_mult2_eq [of n 256 16] e1 by (simp add: c_def)
  have e3: "c mod 16 = c" using assms e2 by simp
  have n: "n = 16 * a + n mod 16" by (simp add: a_def)
  have a: "a = 16 * b + a mod 16" by (simp add: b_def)
  have b: "b = 16 * c + b mod 16" by (simp add: c_def)
  have "n = 4096 * c + 256 * (b mod 16) + 16 * (a mod 16) + n mod 16"
    using n a b by linarith
  then show ?thesis by (simp add: e1 e2 e3 a_def [symmetric])
qed

lemma hex4_inj:
  assumes "hex4 c @ X = hex4 d @ Y"
  shows "c = d \<and> X = Y"
proof -
  have lt: "unat c < 65536" "unat d < 65536"
    using unsigned_less [of c, where 'a = nat] unsigned_less [of d, where 'a = nat] by simp_all
  have d3: "unat c div 4096 mod 16 = unat d div 4096 mod 16"
    using assms by (auto simp: hex4_def intro: hex_digit_inj)
  have d2: "unat c div 256 mod 16 = unat d div 256 mod 16"
    using assms by (auto simp: hex4_def intro: hex_digit_inj)
  have d1: "unat c div 16 mod 16 = unat d div 16 mod 16"
    using assms by (auto simp: hex4_def intro: hex_digit_inj)
  have d0: "unat c mod 16 = unat d mod 16"
    using assms by (auto simp: hex4_def intro: hex_digit_inj)
  have "unat c = unat d"
    using nibbles [OF lt(1)] nibbles [OF lt(2)] d3 d2 d1 d0 by simp
  then have "c = d" by (simp add: word_unat_eq_iff)
  moreover have "X = Y" using assms by (simp add: hex4_def)
  ultimately show ?thesis by simp
qed

lemma quote_unit_inj:
  "quote_unit c @ X = quote_unit d @ Y \<Longrightarrow> c = d \<and> X = Y"
  by (auto simp: quote_unit_def UnicodeEscape_def split: if_splits dest: hex4_inj)

lemma quote_unit_first:
  "\<exists>u rest. quote_unit c = u # rest \<and> u \<noteq> 0x22 \<and> \<not> is_lead u"
  by (auto simp: quote_unit_def UnicodeEscape_def is_lead_def)

lemma quote_units_Cons:
  "quote_units (c # cs) =
     (if is_lead c \<and> cs \<noteq> [] \<and> is_trail (hd cs) then c # hd cs # quote_units (tl cs)
      else quote_unit c @ quote_units cs)"
  by (cases cs) simp_all

lemma quote_units_first:
  "\<exists>u rest. quote_units (c # cs) = u # rest \<and> u \<noteq> 0x22"
  using quote_unit_first [of c] by (auto simp: quote_units_Cons is_lead_def)

lemma quote_units_inj:
  "quote_units a @ 0x22 # r1 = quote_units b @ 0x22 # r2 \<Longrightarrow> a = b \<and> r1 = r2"
proof (induction a arbitrary: b rule: length_induct)
  case (1 a)
  have IH: "\<And>ys x. length ys < length a \<Longrightarrow>
      quote_units ys @ 0x22 # r1 = quote_units x @ 0x22 # r2 \<Longrightarrow> ys = x \<and> r1 = r2"
    using 1(1) by blast
  show ?case
  proof (cases a)
    case Nil
    note a = this
    show ?thesis
    proof (cases b)
      case Nil
      then show ?thesis using 1(2) a by simp
    next
      case (Cons d ds)
      obtain u rest where "quote_units (d # ds) = u # rest" "u \<noteq> 0x22"
        using quote_units_first [of d ds] by blast
      then show ?thesis using 1(2) a Cons by simp
    qed
  next
    case (Cons c cs)
    note a = this
    show ?thesis
    proof (cases b)
      case Nil
      obtain u rest where "quote_units (c # cs) = u # rest" "u \<noteq> 0x22"
        using quote_units_first [of c cs] by blast
      then show ?thesis using 1(2) a Nil by simp
    next
      case (Cons d ds)
      note b = this
      let ?pa = "is_lead c \<and> cs \<noteq> [] \<and> is_trail (hd cs)"
      let ?pb = "is_lead d \<and> ds \<noteq> [] \<and> is_trail (hd ds)"
      consider (pp) "?pa" "?pb" | (pn) "?pa" "\<not> ?pb" | (np) "\<not> ?pa" "?pb" | (nn) "\<not> ?pa" "\<not> ?pb"
        by blast
      then show ?thesis
      proof cases
        case pp
        then obtain c2 cs2 d2 ds2 where cs: "cs = c2 # cs2" and ds: "ds = d2 # ds2"
          by (cases cs; cases ds) auto
        from 1(2) pp have "c = d" "c2 = d2"
          "quote_units cs2 @ 0x22 # r1 = quote_units ds2 @ 0x22 # r2"
          by (simp_all add: a b cs ds)
        moreover have "length cs2 < length a" by (simp add: a cs)
        ultimately show ?thesis using IH [of cs2 ds2] by (simp add: a b cs ds)
      next
        case pn
        obtain u rest where "quote_unit d = u # rest" "\<not> is_lead u"
          using quote_unit_first [of d] by blast
        then show ?thesis using 1(2) pn by (auto simp: a b quote_units_Cons)
      next
        case np
        obtain u rest where "quote_unit c = u # rest" "\<not> is_lead u"
          using quote_unit_first [of c] by blast
        then show ?thesis using 1(2) np by (auto simp: a b quote_units_Cons)
      next
        case nn
        from 1(2) nn have "quote_unit c @ (quote_units cs @ 0x22 # r1)
            = quote_unit d @ (quote_units ds @ 0x22 # r2)"
          by (simp add: a b quote_units_Cons)
        then have "c = d" and rest: "quote_units cs @ 0x22 # r1 = quote_units ds @ 0x22 # r2"
          using quote_unit_inj by blast+
        moreover have "length cs < length a" by (simp add: a)
        ultimately show ?thesis using IH [of cs ds] by (simp add: a b)
      qed
    qed
  qed
qed

lemma QuoteJSONString_inj:
  "QuoteJSONString a @ r1 = QuoteJSONString b @ r2 \<Longrightarrow> a = b \<and> r1 = r2"
  using quote_units_inj [of a r1 b r2] by (simp add: QuoteJSONString_def)

lemma QuoteJSONString_first: "\<exists>rest. QuoteJSONString s = 0x22 # rest"
  by (simp add: QuoteJSONString_def)

lemma stringify_first: "\<exists>u rest. stringify j = u # rest \<and> u \<noteq> 0x7D \<and> u \<noteq> 0x2C"
  by (cases j) (auto simp: QuoteJSONString_def)

lemma stringify_members_first:
  "ms \<noteq> [] \<Longrightarrow> \<exists>rest. stringify_members ms = 0x22 # rest"
proof (cases ms)
  case (Cons m ms')
  obtain k v where m: "m = (k, v)" by (cases m)
  from QuoteJSONString_first [of k] obtain rest where "QuoteJSONString k = 0x22 # rest" by blast
  then show ?thesis using Cons m by (cases ms') auto
qed simp

lemma stringify_members_Cons:
  "stringify_members ((k, v) # ms) =
     QuoteJSONString k @ 0x3A # stringify v @
       (if ms = [] then [] else 0x2C # stringify_members ms)"
  by (cases ms) simp_all

text \<open>
  No serialisation is a proper prefix of another: from equal texts with anything after
  them, equal values and equal rests. For the members of an object the text goes up to the
  closing brace.
\<close>

lemma stringify_inj_aux:
  "(\<forall>j' r1 r2. stringify j @ r1 = stringify j' @ r2 \<longrightarrow> j = j' \<and> r1 = r2)"
  "(\<forall>ms' r1 r2. stringify_members ms @ 0x7D # r1 = stringify_members ms' @ 0x7D # r2 \<longrightarrow>
      ms = ms' \<and> r1 = r2)"
proof (induction j and ms rule: stringify_stringify_members.induct)
  case (1 s)
  show ?case
  proof (intro allI impI)
    fix j' r1 r2
    assume eq: "stringify (JString s) @ r1 = stringify j' @ r2"
    show "JString s = j' \<and> r1 = r2"
    proof (cases j')
      case (JString s')
      with eq show ?thesis using QuoteJSONString_inj [of s r1 s' r2] by simp
    next
      case (JObject ms')
      with eq show ?thesis by (simp add: QuoteJSONString_def)
    qed
  qed
next
  case (2 ms)
  show ?case
  proof (intro allI impI)
    fix j' r1 r2
    assume eq: "stringify (JObject ms) @ r1 = stringify j' @ r2"
    show "JObject ms = j' \<and> r1 = r2"
    proof (cases j')
      case (JString s')
      with eq show ?thesis by (simp add: QuoteJSONString_def)
    next
      case (JObject ms')
      with eq have "stringify_members ms @ 0x7D # r1 = stringify_members ms' @ 0x7D # r2"
        by simp
      with 2 JObject show ?thesis by blast
    qed
  qed
next
  case 3
  show ?case
  proof (intro allI impI)
    fix ms' r1 r2
    assume eq: "stringify_members [] @ 0x7D # r1 = stringify_members ms' @ 0x7D # r2"
    show "[] = ms' \<and> r1 = r2"
    proof (cases "ms' = []")
      case True
      with eq show ?thesis by simp
    next
      case False
      from stringify_members_first [OF this] eq show ?thesis by auto
    qed
  qed
next
  case (4 k v)
  show ?case
  proof (intro allI impI)
    fix ms' r1 r2
    assume eq: "stringify_members [(k, v)] @ 0x7D # r1 = stringify_members ms' @ 0x7D # r2"
    show "[(k, v)] = ms' \<and> r1 = r2"
    proof (cases ms')
      case Nil
      with eq QuoteJSONString_first [of k] show ?thesis by auto
    next
      case (Cons m' rest')
      obtain k' v' where m': "m' = (k', v')" by (cases m')
      from eq Cons m' have e: "QuoteJSONString k @ (0x3A # stringify v @ 0x7D # r1) =
          QuoteJSONString k' @ (0x3A # stringify v' @
            (if rest' = [] then [] else 0x2C # stringify_members rest') @ 0x7D # r2)"
        by (simp add: stringify_members_Cons)
      from QuoteJSONString_inj [OF e] have k: "k = k'"
        and e2: "stringify v @ (0x7D # r1) =
          stringify v' @ ((if rest' = [] then [] else 0x2C # stringify_members rest') @ 0x7D # r2)"
        by simp_all
      from 4 e2 have v: "v = v'"
        and e3: "0x7D # r1 = (if rest' = [] then [] else 0x2C # stringify_members rest') @ 0x7D # r2"
        by blast+
      from e3 have "rest' = [] \<and> r1 = r2" by (auto split: if_splits)
      with k v Cons m' show ?thesis by simp
    qed
  qed
next
  case (5 k v m ms)
  show ?case
  proof (intro allI impI)
    fix ms' r1 r2
    assume eq: "stringify_members ((k, v) # m # ms) @ 0x7D # r1 =
        stringify_members ms' @ 0x7D # r2"
    show "(k, v) # m # ms = ms' \<and> r1 = r2"
    proof (cases ms')
      case Nil
      with eq QuoteJSONString_first [of k] show ?thesis by auto
    next
      case (Cons m' rest')
      obtain k' v' where m': "m' = (k', v')" by (cases m')
      from eq Cons m' have e: "QuoteJSONString k @
            (0x3A # stringify v @ (0x2C # stringify_members (m # ms)) @ 0x7D # r1) =
          QuoteJSONString k' @ (0x3A # stringify v' @
            (if rest' = [] then [] else 0x2C # stringify_members rest') @ 0x7D # r2)"
        by (simp add: stringify_members_Cons)
      from QuoteJSONString_inj [OF e] have k: "k = k'"
        and e2: "stringify v @ ((0x2C # stringify_members (m # ms)) @ 0x7D # r1) =
          stringify v' @ ((if rest' = [] then [] else 0x2C # stringify_members rest') @ 0x7D # r2)"
        by simp_all
      from 5(1) e2 have v: "v = v'"
        and e3: "(0x2C # stringify_members (m # ms)) @ 0x7D # r1 =
          (if rest' = [] then [] else 0x2C # stringify_members rest') @ 0x7D # r2"
        by blast+
      from e3 have ne: "rest' \<noteq> []"
        and e4: "stringify_members (m # ms) @ 0x7D # r1 = stringify_members rest' @ 0x7D # r2"
        by (auto split: if_splits)
      from 5(2) e4 have "m # ms = rest' \<and> r1 = r2" by blast
      with k v Cons m' show ?thesis by simp
    qed
  qed
qed

lemma stringify_inj: "stringify j = stringify j' \<Longrightarrow> j = j'"
  using stringify_inj_aux(1) [of j] by (metis append_Nil2)

lemma binaryOrder_inj:
  assumes "kt \<noteq> kc" "kt \<noteq> kl" "kt \<noteq> kr" "kc \<noteq> kl" "kc \<noteq> kr" "kl \<noteq> kr"
    and "binaryOrder ks (kt, a) (kc, b) (kl, c) (kr, d) =
         binaryOrder ks' (kt, a') (kc, b') (kl, c') (kr, d')"
  shows "ks = ks' \<and> a = a' \<and> b = b' \<and> c = c' \<and> d = d'"
proof -
  note ne = assms(1-6) assms(1-6) [symmetric]
  from assms(7) show ?thesis
    by (cases ks; cases ks'; simp add: ne)
qed

lemma binaryOrder_length: "length (binaryOrder ks t c l r) = 4"
  by (cases ks) simp_all

lemma atomOrder_length: "length (atomOrder ks t n) = 2"
  by (cases ks) simp_all

lemma notOrder_length: "length (notOrder ks t f) = 2"
  by (cases ks) simp_all

lemma key_names:
  "ascii ''type'' \<noteq> ascii ''name''" "ascii ''type'' \<noteq> ascii ''formula''"
  "ascii ''type'' \<noteq> ascii ''connective''" "ascii ''type'' \<noteq> ascii ''left''"
  "ascii ''type'' \<noteq> ascii ''right''" "ascii ''connective'' \<noteq> ascii ''left''"
  "ascii ''connective'' \<noteq> ascii ''right''" "ascii ''left'' \<noteq> ascii ''right''"
  "ascii ''name'' \<noteq> ascii ''formula''"
  "ascii ''ATOM'' \<noteq> ascii ''NOT''" "ascii ''ATOM'' \<noteq> ascii ''BINARY''"
  "ascii ''NOT'' \<noteq> ascii ''BINARY''"
  by (simp_all add: ascii_def)

lemma connective_string_inj: "connective_string c = connective_string d \<Longrightarrow> c = d"
  by (cases c; cases d) (simp_all add: ascii_def)

lemma toJson_inj: "toJson f = toJson g \<Longrightarrow> f = g"
proof (induction f arbitrary: g)
  case (Atom ks n)
  note ne = key_names key_names [symmetric]
  show ?case
  proof (cases g)
    case (Atom ks' n')
    with Atom.prems show ?thesis by (cases ks; cases ks') (simp_all add: ne)
  next
    case (Not ks' g')
    with Atom.prems show ?thesis by (cases ks; cases ks') (simp_all add: ne)
  next
    case (Binary ks' c l r)
    with Atom.prems have "length (atomOrder ks (ascii ''type'', JString (ascii ''ATOM''))
          (ascii ''name'', JString n)) =
        length (binaryOrder ks' (ascii ''type'', JString (ascii ''BINARY''))
          (ascii ''connective'', JString (connective_string c))
          (ascii ''left'', toJson l) (ascii ''right'', toJson r))"
      by simp
    then show ?thesis by (simp add: atomOrder_length binaryOrder_length)
  qed
next
  case (Not ks f)
  note ne = key_names key_names [symmetric]
  show ?case
  proof (cases g)
    case (Atom ks' n')
    with Not.prems show ?thesis by (cases ks; cases ks') (simp_all add: ne)
  next
    case (Not ks' g')
    with Not.prems have "ks = ks' \<and> toJson f = toJson g'"
      by (cases ks; cases ks') (simp_all add: ne)
    with Not.IH [of g'] Not show ?thesis by simp
  next
    case (Binary ks' c l r)
    with Not.prems have "length (notOrder ks (ascii ''type'', JString (ascii ''NOT''))
          (ascii ''formula'', toJson f)) =
        length (binaryOrder ks' (ascii ''type'', JString (ascii ''BINARY''))
          (ascii ''connective'', JString (connective_string c))
          (ascii ''left'', toJson l) (ascii ''right'', toJson r))"
      by simp
    then show ?thesis by (simp add: notOrder_length binaryOrder_length)
  qed
next
  case (Binary ks c l r)
  show ?case
  proof (cases g)
    case (Atom ks' n')
    with Binary.prems have "length (binaryOrder ks (ascii ''type'', JString (ascii ''BINARY''))
          (ascii ''connective'', JString (connective_string c))
          (ascii ''left'', toJson l) (ascii ''right'', toJson r)) =
        length (atomOrder ks' (ascii ''type'', JString (ascii ''ATOM''))
          (ascii ''name'', JString n'))"
      by simp
    then show ?thesis by (simp add: atomOrder_length binaryOrder_length)
  next
    case (Not ks' g')
    with Binary.prems have "length (binaryOrder ks (ascii ''type'', JString (ascii ''BINARY''))
          (ascii ''connective'', JString (connective_string c))
          (ascii ''left'', toJson l) (ascii ''right'', toJson r)) =
        length (notOrder ks' (ascii ''type'', JString (ascii ''NOT''))
          (ascii ''formula'', toJson g'))"
      by simp
    then show ?thesis by (simp add: notOrder_length binaryOrder_length)
  next
    case (Binary ks' c' l' r')
    with Binary.prems have "binaryOrder ks (ascii ''type'', JString (ascii ''BINARY''))
          (ascii ''connective'', JString (connective_string c))
          (ascii ''left'', toJson l) (ascii ''right'', toJson r) =
        binaryOrder ks' (ascii ''type'', JString (ascii ''BINARY''))
          (ascii ''connective'', JString (connective_string c'))
          (ascii ''left'', toJson l') (ascii ''right'', toJson r')"
      by simp
    from binaryOrder_inj [OF key_names(3,4,5,6,7,8) this]
    have "ks = ks'" "c = c'" "toJson l = toJson l'" "toJson r = toJson r'"
      by (auto dest: connective_string_inj)
    with Binary.IH(1) [of l'] Binary.IH(2) [of r'] Binary show ?thesis by simp
  qed
qed

text \<open>
  So two formulas have the same serialisation exactly when they are the same value of
  \<open>formula\<close>: the same tags, the same fields and the same order of keys at every node.
\<close>

lemma isFormulaEqual_iff: "isFormulaEqual f g \<longleftrightarrow> f = g"
  unfolding isFormulaEqual_def JSON_stringify_def
  using stringify_inj [of "toJson f" "toJson g"] toJson_inj [of f g] by blast

lemma formula_eq_iff: "f = g \<longleftrightarrow> formula_eq_ref f g \<and> sameKeyOrder f g"
  by (induction f g rule: formula_eq_ref.induct) auto

lemma canonical_sameKeyOrder:
  "canonical f \<Longrightarrow> canonical g \<Longrightarrow> formula_eq_ref f g \<Longrightarrow> sameKeyOrder f g"
  by (induction f g rule: formula_eq_ref.induct) auto

lemma formula_eq_ref_refl: "formula_eq_ref f f"
  by (induction f) auto

section \<open>Sums of numbers\<close>

lemma ulpExponent_small: "a < 2 ^ 53 \<Longrightarrow> ulpExponent a = 0"
  by (subst ulpExponent.simps) simp

lemma ulpExponent_large: "\<not> a < 2 ^ 53 \<Longrightarrow> ulpExponent a = Suc (ulpExponent (a div 2))"
  by (subst ulpExponent.simps) simp

lemma roundToDouble_exact: "\<bar>x\<bar> < 2 ^ 53 \<Longrightarrow> roundToDouble x = x"
proof -
  assume a: "\<bar>x\<bar> < 2 ^ 53"
  then have "nat \<bar>x\<bar> < 2 ^ 53" by simp
  then have "ulpExponent (nat \<bar>x\<bar>) = 0" by (rule ulpExponent_small)
  then show ?thesis by (simp add: roundToDouble_def Let_def mult_sgn_abs)
qed

lemma ulpExponent_2_53: "ulpExponent (2 ^ 53) = 1" "ulpExponent (2 ^ 53 + 1) = 1"
  by (simp_all add: ulpExponent_large ulpExponent_small)

lemma roundToDouble_2_53: "roundToDouble (2 ^ 53) = 2 ^ 53"
proof -
  have "nat \<bar>2 ^ 53 :: int\<bar> = 2 ^ 53" by simp
  then show ?thesis
    unfolding roundToDouble_def Let_def by (simp only: ulpExponent_2_53) simp
qed

lemma roundToDouble_2_53_plus_1: "roundToDouble (2 ^ 53 + 1) = 2 ^ 53"
proof -
  have "nat \<bar>2 ^ 53 + 1 :: int\<bar> = 2 ^ 53 + 1" by simp
  then show ?thesis
    unfolding roundToDouble_def Let_def by (simp only: ulpExponent_2_53) simp
qed

lemma numberAdd_1_exact:
  assumes "- (2 ^ 53) \<le> n" "n < 2 ^ 53"
  shows "numberAdd n 1 = n + 1"
proof (cases "n + 1 = 2 ^ 53")
  case True
  then show ?thesis using roundToDouble_2_53 by (simp add: numberAdd_def)
next
  case False
  with assms have "\<bar>n + 1\<bar> < 2 ^ 53" by simp
  then show ?thesis unfolding numberAdd_def by (rule roundToDouble_exact)
qed

lemma numberAdd_2_53: "numberAdd (2 ^ 53) 1 = 2 ^ 53"
  using roundToDouble_2_53_plus_1 by (simp add: numberAdd_def)

lemma numberAdd_2_53_numeral: "numberAdd 9007199254740992 1 = 9007199254740992"
  using numberAdd_2_53 by simp

section \<open>Properties of the rule engine\<close>

subsection \<open>Looking steps up\<close>

lemma findStep_id: "findStep steps i = Some s \<Longrightarrow> step_id s = i \<and> s \<in> set steps"
  unfolding findStep_def by (induction steps) (auto split: if_splits)

lemma found_length: "length (found xs) \<le> length xs"
  by (induction xs rule: found.induct) simp_all

lemma found_all: "length (found xs) = length xs \<Longrightarrow> None \<notin> set xs"
proof (induction xs rule: found.induct)
  case (2 xs)
  then show ?case using found_length [of xs] by simp
qed simp_all

lemma found_missing:
  assumes "i \<in> set ids" "findStep steps i = None"
  shows "length (found (map (findStep steps) ids)) \<noteq> length ids"
proof
  assume "length (found (map (findStep steps) ids)) = length ids"
  then have "None \<notin> set (map (findStep steps) ids)" using found_all [of "map (findStep steps) ids"] by simp
  then show False using assms by force
qed

subsection \<open>Each branch on two found steps\<close>

lemma sameObject_iff: "sameObject f g \<longleftrightarrow> f = g"
  by (simp add: sameObject_def formula_eq_iff)

lemma isImplies_size: "isImplies f A B \<Longrightarrow> size A < size f"
  by (auto simp: isImplies_def split: formula.splits connective.splits)

lemma isImplies_not_mutual: "isImplies f A B \<Longrightarrow> \<not> isImplies A f C"
  using isImplies_size [of f A B] isImplies_size [of A f C] by auto

lemma mpConclusion_Some: "mpConclusion f g = Some B \<longleftrightarrow> isImplies f g B"
  by (auto simp: mpConclusion_def isImplies_def isFormulaEqual_iff
      split: formula.splits connective.splits)

lemma mpConclusion_None: "mpConclusion f g = None \<longleftrightarrow> (\<forall>B. \<not> isImplies f g B)"
  by (auto simp: mpConclusion_def isImplies_def isFormulaEqual_iff
      split: formula.splits connective.splits)

lemma canonical_parts:
  "canonical f \<Longrightarrow> isImplies f A B \<Longrightarrow> canonical A \<and> canonical B"
  "canonical f \<Longrightarrow> isOr f A B \<Longrightarrow> canonical A \<and> canonical B"
  "canonical f \<Longrightarrow> isNot f X \<Longrightarrow> canonical X"
  by (auto simp: isImplies_def isOr_def isNot_def split: formula.splits connective.splits)

lemma canonical_sameObject:
  "canonical f \<Longrightarrow> canonical g \<Longrightarrow> formula_eq_ref f g \<Longrightarrow> sameObject f g"
  by (simp add: sameObject_def canonical_sameKeyOrder)

lemma rule_MP_two:
  assumes "findStep (currentSteps state) i1 = Some p" "findStep (currentSteps state) i2 = Some q"
  shows "rule_MP state r [i1, i2] =
     (case mpConclusion (formula p) (formula q) of
        Some B \<Rightarrow> Inr (appendStep state (currentSteps state)
                \<lparr>step_id = nextId state, formula = B, rule = r,
                 justification = [i1, i2], depth = max (depth p) (depth q),
                 isDischarged = None\<rparr>)
      | None \<Rightarrow> (case mpConclusion (formula q) (formula p) of
          Some B \<Rightarrow> Inr (appendStep state (currentSteps state)
                \<lparr>step_id = nextId state, formula = B, rule = r,
                 justification = [i1, i2], depth = max (depth p) (depth q),
                 isDischarged = None\<rparr>)
         | None \<Rightarrow> Inl PatternMismatch))"
  using assms by (simp add: rule_MP_def)

lemma rule_DS_two:
  assumes "findStep (currentSteps state) i1 = Some p" "findStep (currentSteps state) i2 = Some q"
  shows "rule_DS state r [i1, i2] =
     (case dsCandidates (formula p) (formula q) of
            Some (Binary ks c l r', Not ks' negatedFormula) \<Rightarrow>
              (case (if isFormulaEqual l negatedFormula then Some r'
                     else if isFormulaEqual r' negatedFormula then Some l
                     else None) of
                 Some conclusion \<Rightarrow>
                   Inr (appendStep state (currentSteps state)
                     \<lparr>step_id = nextId state, formula = conclusion, rule = r,
                      justification = [i1, i2], depth = max (depth p) (depth q),
                      isDischarged = None\<rparr>)
               | None \<Rightarrow> Inl PatternMismatch)
          | _ \<Rightarrow> Inl PatternMismatch)"
  using assms by (simp add: rule_DS_def)

lemma dsCandidates_pattern:
  "dsPattern f g A B X \<Longrightarrow> \<exists>ks ks'. dsCandidates f g = Some (Binary ks OR A B, Not ks' X)"
  by (auto simp: dsPattern_def isOr_def isNot_def dsCandidates_def
      split: formula.splits connective.splits)

lemma dsCandidates_Some:
  "dsCandidates f g = Some (Binary ks c l r, Not ks' X) \<Longrightarrow> c = OR \<and> dsPattern f g l r X"
  by (auto simp: dsPattern_def isOr_def isNot_def dsCandidates_def
      split: formula.splits connective.splits)

lemma rule_II_two:
  assumes "findStep (currentSteps state) i1 = Some a" "findStep (currentSteps state) i2 = Some b"
  shows "rule_II state [i1, i2] =
     (let (assumptionStep, conclusionStep) = assumptionAndConclusion a b
      in Inr (appendStep state (map (discharge (step_id assumptionStep)) (currentSteps state))
                  \<lparr>step_id = nextId state,
                   formula = Binary TCLR IMPLIES (formula assumptionStep) (formula conclusionStep),
                   rule = II,
                   justification = [step_id assumptionStep, step_id conclusionStep],
                   depth = 0, isDischarged = Some False\<rparr>))"
  using assms by (simp add: rule_II_def)

lemma assumptionAndConclusion_spec: "assumptionAndConclusion a b = chooseAssumption a b"
  by (simp add: assumptionAndConclusion_def chooseAssumption_def)

subsection \<open>Every successful branch appends one step\<close>

lemma appendedI:
  "step_id newStep = nextId state \<Longrightarrow>
   state' = appendStep state (currentSteps state) newStep \<Longrightarrow> appended state state'"
  unfolding appended_def by blast

lemma appendedII_I:
  "step_id newStep = nextId state \<Longrightarrow>
   state' = appendStep state (map (discharge a) (currentSteps state)) newStep \<Longrightarrow>
   appendedII state state'"
  unfolding appendedII_def by blast

lemma rule_MP_Inr: "rule_MP state r ids = Inr state' \<Longrightarrow> appended state state'"
  by (auto simp: rule_MP_def Let_def split: if_splits option.splits intro!: appendedI)

lemma rule_CI_Inr: "rule_CI state r ids = Inr state' \<Longrightarrow> appended state state'"
  by (auto simp: rule_CI_def Let_def split: if_splits list.splits intro!: appendedI)

lemma rule_CE_Inr: "rule_CE state r ids = Inr state' \<Longrightarrow> appended state state'"
  by (auto simp: rule_CE_def split: if_splits option.splits formula.splits connective.splits
      intro!: appendedI)

lemma rule_DN_Inr: "rule_DN state r ids = Inr state' \<Longrightarrow> appended state state'"
  by (auto simp: rule_DN_def split: if_splits option.splits formula.splits intro!: appendedI)

lemma rule_DI_Inr: "rule_DI state r ids nf = Inr state' \<Longrightarrow> appended state state'"
  by (auto simp: rule_DI_def split: if_splits option.splits intro!: appendedI)

lemma rule_DS_Inr: "rule_DS state r ids = Inr state' \<Longrightarrow> appended state state'"
  by (auto simp: rule_DS_def Let_def
      split: if_splits option.splits prod.splits formula.splits intro!: appendedI)

lemma list_two: "length xs = 2 \<Longrightarrow> xs = [xs ! 0, xs ! 1]"
  by (cases xs; cases "tl xs") auto

lemma rule_II_Inr_full:
  assumes "rule_II state ids = Inr state'"
  shows "\<exists>i1 i2 a b assumptionStep conclusionStep.
     ids = [i1, i2] \<and> findStep (currentSteps state) i1 = Some a \<and>
     findStep (currentSteps state) i2 = Some b \<and>
     chooseAssumption a b = (assumptionStep, conclusionStep) \<and>
     state' = appendStep state (map (discharge (step_id assumptionStep)) (currentSteps state))
        \<lparr>step_id = nextId state,
         formula = Binary TCLR IMPLIES (formula assumptionStep) (formula conclusionStep),
         rule = II, justification = [step_id assumptionStep, step_id conclusionStep],
         depth = 0, isDischarged = Some False\<rparr>"
proof -
  from assms have len: "length ids = 2" by (auto simp: rule_II_def split: if_splits)
  from assms len obtain a b where a: "findStep (currentSteps state) (ids ! 0) = Some a"
    and b: "findStep (currentSteps state) (ids ! 1) = Some b"
    by (auto simp: rule_II_def split: option.splits)
  obtain assumptionStep conclusionStep where
    c: "chooseAssumption a b = (assumptionStep, conclusionStep)"
    by (cases "chooseAssumption a b")
  have ids: "ids = [ids ! 0, ids ! 1]" using len by (rule list_two)
  have "rule_II state [ids ! 0, ids ! 1] = Inr state'" using assms ids by simp
  then have "state' =
      appendStep state (map (discharge (step_id assumptionStep)) (currentSteps state))
        \<lparr>step_id = nextId state,
         formula = Binary TCLR IMPLIES (formula assumptionStep) (formula conclusionStep),
         rule = II, justification = [step_id assumptionStep, step_id conclusionStep],
         depth = 0, isDischarged = Some False\<rparr>"
    unfolding rule_II_two [OF a b] assumptionAndConclusion_spec c by simp
  with ids a b c show ?thesis by blast
qed

lemma rule_II_Inr:
  assumes "rule_II state ids = Inr state'"
  shows "appendedII state state'"
proof -
  from rule_II_Inr_full [OF assms] obtain assumptionStep conclusionStep :: ProofStep where
    s: "state' = appendStep state (map (discharge (step_id assumptionStep)) (currentSteps state))
        \<lparr>step_id = nextId state,
         formula = Binary TCLR IMPLIES (formula assumptionStep) (formula conclusionStep),
         rule = II, justification = [step_id assumptionStep, step_id conclusionStep],
         depth = 0, isDischarged = Some False\<rparr>"
    by blast
  show ?thesis by (rule appendedII_I [OF _ s]) simp
qed

lemma applyRule_Inr:
  assumes "applyRule state r ids nf = Inr state'"
  shows "\<exists>newStep steps. step_id newStep = nextId state \<and>
     state' = appendStep state steps newStep \<and>
     (if r = II then \<exists>a. steps = map (discharge a) (currentSteps state)
      else steps = currentSteps state)"
proof (cases "r = II")
  case True
  with assms have "rule_II state ids = Inr state'" by (simp add: applyRule_def)
  from rule_II_Inr [OF this] True show ?thesis by (auto simp: appendedII_def)
next
  case False
  with assms have "appended state state'"
    by (auto simp: applyRule_def split: if_splits
        dest: rule_MP_Inr rule_CI_Inr rule_CE_Inr rule_DN_Inr rule_DI_Inr rule_DS_Inr)
  with False show ?thesis by (auto simp: appended_def)
qed

lemma discharge_fields:
  "step_id (discharge a s) = step_id s" "formula (discharge a s) = formula s"
  "rule (discharge a s) = rule s" "justification (discharge a s) = justification s"
  "depth (discharge a s) = depth s"
  by (simp_all add: discharge_def)

lemma discharge_changed:
  "discharge a s \<noteq> s \<Longrightarrow> step_id s = a \<and> isDischarged (discharge a s) = Some True"
  by (auto simp: discharge_def split: if_splits)

lemma distinct_ids_same_index:
  assumes "distinct (map step_id steps)" "k < length steps" "j < length steps"
    "step_id (steps ! k) = step_id (steps ! j)"
  shows "k = j"
proof -
  have "map step_id steps ! k = map step_id steps ! j" using assms by simp
  then show ?thesis using assms(1-3) by (metis distinct_conv_nth length_map)
qed

subsection \<open>The example states\<close>

lemmas example_defs =
  INITIAL_PROOF_STATE_def afterMP_def afterII_def afterSecondII_def dsState_def
  step1_def step2_def step3_def step4_def step2Permuted_def permutedState_def
  dsPermuted_def bigState_def bigAfter_def

lemma ascii_letters [simp]:
  "ascii ''P'' \<noteq> ascii ''Q''" "ascii ''P'' \<noteq> ascii ''R''" "ascii ''Q'' \<noteq> ascii ''R''"
  "ascii ''Q'' \<noteq> ascii ''P''" "ascii ''R'' \<noteq> ascii ''P''" "ascii ''R'' \<noteq> ascii ''Q''"
  by (simp_all add: ascii_def)

lemma findStep_INITIAL:
  "findStep (currentSteps INITIAL_PROOF_STATE) 1 = Some step1"
  "findStep (currentSteps INITIAL_PROOF_STATE) 2 = Some step2"
  "findStep (currentSteps INITIAL_PROOF_STATE) 99 = None"
  by (simp_all add: findStep_def example_defs)

lemma findStep_afterMP:
  "findStep (currentSteps afterMP) 2 = Some step2"
  "findStep (currentSteps afterMP) 3 = Some step3"
  by (simp_all add: findStep_def example_defs)

lemma findStep_afterII:
  "findStep (currentSteps afterII) 2 = Some (step2\<lparr>isDischarged := Some True\<rparr>)"
  "findStep (currentSteps afterII) 3 = Some step3"
  by (simp_all add: findStep_def example_defs)

lemma findStep_dsState:
  "findStep (currentSteps dsState) 1 = Some (currentSteps dsState ! 0)"
  "findStep (currentSteps dsState) 2 = Some (currentSteps dsState ! 1)"
  "findStep (currentSteps dsState) 3 = Some (currentSteps dsState ! 2)"
  "findStep (currentSteps dsState) 4 = Some (currentSteps dsState ! 3)"
  by (simp_all add: findStep_def example_defs)

lemma findStep_permuted:
  "findStep (currentSteps permutedState) 1 = Some step1"
  "findStep (currentSteps permutedState) 2 = Some step2Permuted"
  by (simp_all add: findStep_def example_defs)

lemma findStep_dsPermuted:
  "findStep (currentSteps dsPermuted) 1 = Some (currentSteps dsPermuted ! 0)"
  "findStep (currentSteps dsPermuted) 2 = Some (currentSteps dsPermuted ! 1)"
  by (simp_all add: findStep_def example_defs)

lemma findStep_bigState:
  "findStep (currentSteps bigState) 1 = Some step1"
  "findStep (currentSteps bigState) 2 = Some step2"
  by (simp_all add: findStep_def example_defs)

lemma numberAdd_examples [simp]:
  "numberAdd 3 1 = 4" "numberAdd 4 1 = 5" "numberAdd 5 1 = 6"
  by (simp_all add: numberAdd_1_exact)

lemma afterMP_II: "applyRule afterMP II [3, 2] None = Inr afterII"
  unfolding applyRule_def rule_II_two [OF findStep_afterMP(2,1)]
  by (simp add: assumptionAndConclusion_def appendStep_def discharge_def example_defs)

lemma afterII_II: "applyRule afterII II [3, 2] None = Inr afterSecondII"
  unfolding applyRule_def rule_II_two [OF findStep_afterII(2,1)]
  by (simp add: assumptionAndConclusion_def appendStep_def discharge_def example_defs)

subsection \<open>The formulas of the repository keep its order of keys\<close>

text \<open>
  The parser returns formulas that write their keys in the order of the repository at
  every node, the formulas of the initial state do, and the engine, on a state whose
  formulas do and with a secondary formula that does, returns such a state. So the
  formulas that the parser and the engine make of one another's results never differ in
  the order of their keys; a formula with another order comes from the request body.
\<close>

lemma parse_steps_canonical:
  shows "parseImplication tokens i = Inr (f, j) \<Longrightarrow> canonical f"
    and "implicationLoop tokens left i = Inr (f, j) \<Longrightarrow> canonical left \<Longrightarrow> canonical f"
    and "parseDisjunction tokens i = Inr (f, j) \<Longrightarrow> canonical f"
    and "disjunctionLoop tokens left i = Inr (f, j) \<Longrightarrow> canonical left \<Longrightarrow> canonical f"
    and "parseConjunction tokens i = Inr (f, j) \<Longrightarrow> canonical f"
    and "conjunctionLoop tokens left i = Inr (f, j) \<Longrightarrow> canonical left \<Longrightarrow> canonical f"
    and "parseUnary tokens i = Inr (f, j) \<Longrightarrow> canonical f"
proof (induct tokens i and tokens left i and tokens i and tokens left i and tokens i
    and tokens left i and tokens i
    arbitrary: f j and f j and f j and f j and f j and f j and f j
    rule: parseImplication_implicationLoop_parseDisjunction_disjunctionLoop_parseConjunction_conjunctionLoop_parseUnary.induct)
  case (1 tokens i)
  from "1.prems" obtain a b where
    d: "parseDisjunction tokens i = Inr (a, b)" and l: "implicationLoop tokens a b = Inr (f, j)"
    by (auto simp: parseImplication.simps split: sum.splits)
  from "1.hyps"(2) [OF d refl l "1.hyps"(1) [OF d]] show ?case .
next
  case (2 tokens left i)
  note eq = implicationLoop.simps [of tokens left i]
  from "2.prems"(1) obtain t where t: "peek tokens i = Some t"
    unfolding eq by (auto split: option.splits)
  show ?case
  proof (cases "tokenType t = T_IMPLIES")
    case True
    with "2.prems"(1) t obtain a b where
      d: "parseImplication tokens (i + 1) = Inr (a, b)"
      and l: "implicationLoop tokens (Binary TCLR IMPLIES left a) b = Inr (f, j)"
      unfolding eq by (auto split: sum.splits)
    have "canonical (Binary TCLR IMPLIES left a)"
      using "2.hyps"(1) [OF t True d] "2.prems"(2) by simp
    from "2.hyps"(2) [OF t True d refl l this] show ?thesis .
  next
    case False
    with "2.prems" t show ?thesis unfolding eq by simp
  qed
next
  case (3 tokens i)
  from "3.prems" obtain a b where
    d: "parseConjunction tokens i = Inr (a, b)" and l: "disjunctionLoop tokens a b = Inr (f, j)"
    by (auto simp: parseDisjunction.simps split: sum.splits)
  from "3.hyps"(2) [OF d refl l "3.hyps"(1) [OF d]] show ?case .
next
  case (4 tokens left i)
  note eq = disjunctionLoop.simps [of tokens left i]
  from "4.prems"(1) obtain t where t: "peek tokens i = Some t"
    unfolding eq by (auto split: option.splits)
  show ?case
  proof (cases "tokenType t = T_OR")
    case True
    with "4.prems"(1) t obtain a b where
      d: "parseConjunction tokens (i + 1) = Inr (a, b)"
      and l: "disjunctionLoop tokens (Binary TCLR OR left a) b = Inr (f, j)"
      unfolding eq by (auto split: sum.splits)
    have "canonical (Binary TCLR OR left a)"
      using "4.hyps"(1) [OF t True d] "4.prems"(2) by simp
    from "4.hyps"(2) [OF t True d refl l this] show ?thesis .
  next
    case False
    with "4.prems" t show ?thesis unfolding eq by simp
  qed
next
  case (5 tokens i)
  from "5.prems" obtain a b where
    d: "parseUnary tokens i = Inr (a, b)" and l: "conjunctionLoop tokens a b = Inr (f, j)"
    by (auto simp: parseConjunction.simps split: sum.splits)
  from "5.hyps"(2) [OF d refl l "5.hyps"(1) [OF d]] show ?case .
next
  case (6 tokens left i)
  note eq = conjunctionLoop.simps [of tokens left i]
  from "6.prems"(1) obtain t where t: "peek tokens i = Some t"
    unfolding eq by (auto split: option.splits)
  show ?case
  proof (cases "tokenType t = T_AND")
    case True
    with "6.prems"(1) t obtain a b where
      d: "parseUnary tokens (i + 1) = Inr (a, b)"
      and l: "conjunctionLoop tokens (Binary TCLR AND left a) b = Inr (f, j)"
      unfolding eq by (auto split: sum.splits)
    have "canonical (Binary TCLR AND left a)"
      using "6.hyps"(1) [OF t True d] "6.prems"(2) by simp
    from "6.hyps"(2) [OF t True d refl l this] show ?thesis .
  next
    case False
    with "6.prems" t show ?thesis unfolding eq by simp
  qed
next
  case (7 tokens i)
  note eq = parseUnary.simps [of tokens i]
  from "7.prems" obtain t where t: "peek tokens i = Some t"
    unfolding eq by (auto split: option.splits)
  consider (n) "tokenType t = T_NOT"
    | (p) "tokenType t \<noteq> T_NOT" "tokenType t = LEFT_PAREN"
    | (o) "tokenType t \<noteq> T_NOT" "tokenType t \<noteq> LEFT_PAREN"
    by blast
  then show ?case
  proof cases
    case n
    with "7.prems" t obtain a where d: "parseUnary tokens (i + 1) = Inr (a, j)"
      and f: "f = Not TypeFormula a"
      unfolding eq by (auto split: sum.splits)
    from "7.hyps"(1) [OF t n d] f show ?thesis by simp
  next
    case p
    with "7.prems" t obtain b where d: "parseImplication tokens (i + 1) = Inr (f, b)"
      unfolding eq by (auto split: sum.splits option.splits if_splits)
    from "7.hyps"(2) [OF t p d] show ?thesis .
  next
    case o
    with "7.prems" t show ?thesis unfolding eq by (auto split: if_splits)
  qed
qed

lemma parse_canonical: "parse tokens = Inr f \<Longrightarrow> canonical f"
  using parse_steps_canonical(1) [of tokens 0 f]
  by (auto simp: parse_def split: sum.splits option.splits if_splits)

lemma parseFormula_canonical: "parseFormula formulaString = Inr f \<Longrightarrow> canonical f"
  using parse_canonical by (auto simp: parseFormula_def split: sum.splits)

lemma findStep_canonical:
  "\<forall>step \<in> set steps. canonical (formula step) \<Longrightarrow> findStep steps i = Some s \<Longrightarrow>
   canonical (formula s)"
  using findStep_id [of steps i s] by blast

lemma found_set: "s \<in> set (found xs) \<Longrightarrow> Some s \<in> set xs"
  by (induction xs rule: found.induct) auto

lemma found_canonical:
  assumes "\<forall>step \<in> set steps. canonical (formula step)"
    and "s \<in> set (found (map (findStep steps) ids))"
  shows "canonical (formula s)"
proof -
  from found_set [OF assms(2)] obtain i where "findStep steps i = Some s" by auto
  then show ?thesis using assms(1) findStep_canonical by blast
qed


lemma mpConclusion_canonical:
  "mpConclusion f g = Some c \<Longrightarrow> canonical f \<Longrightarrow> canonical c"
  by (auto simp: mpConclusion_def split: formula.splits connective.splits if_splits)

lemma appendStep_canonical:
  assumes "\<forall>step \<in> set steps. canonical (formula step)" and "canonical (formula newStep)"
  shows "\<forall>step \<in> set (currentSteps (appendStep state steps newStep)). canonical (formula step)"
  using assms by (simp add: appendStep_def)

lemma rule_MP_canonical:
  assumes "rule_MP state r ids = Inr state'"
    and c: "\<forall>step \<in> set (currentSteps state). canonical (formula step)"
  shows "\<forall>step \<in> set (currentSteps state'). canonical (formula step)"
proof -
  let ?ps = "found (map (findStep (currentSteps state)) ids)"
  from assms(1) have len: "length ?ps = 2"
    by (auto simp: rule_MP_def Let_def split: if_splits)
  then have "?ps ! 0 \<in> set ?ps" "?ps ! 1 \<in> set ?ps" by simp_all
  then have p: "canonical (formula (?ps ! 0))" "canonical (formula (?ps ! 1))"
    using found_canonical [OF c] by blast+
  have m: "mpConclusion (formula (?ps ! 0)) (formula (?ps ! 1)) = Some x \<longrightarrow> canonical x"
    "mpConclusion (formula (?ps ! 1)) (formula (?ps ! 0)) = Some x \<longrightarrow> canonical x" for x
    using p mpConclusion_canonical by blast+
  from assms(1) len c m show ?thesis
    by (auto simp: rule_MP_def Let_def appendStep_def split: if_splits option.splits)
qed

lemma rule_CI_canonical:
  assumes "rule_CI state r ids = Inr state'"
    and c: "\<forall>step \<in> set (currentSteps state). canonical (formula step)"
  shows "\<forall>step \<in> set (currentSteps state'). canonical (formula step)"
proof -
  let ?ps = "found (map (findStep (currentSteps state)) ids)"
  from assms(1) obtain a b rest where ps: "?ps = a # b # rest"
    by (auto simp: rule_CI_def Let_def split: if_splits list.splits)
  then have "a \<in> set ?ps" "b \<in> set ?ps" by simp_all
  then have p: "canonical (formula a)" "canonical (formula b)"
    using found_canonical [OF c] by blast+
  from assms(1) ps p c show ?thesis
    by (auto simp: rule_CI_def Let_def appendStep_def split: if_splits)
qed

lemma rule_CE_canonical:
  assumes "rule_CE state r ids = Inr state'"
    and c: "\<forall>step \<in> set (currentSteps state). canonical (formula step)"
  shows "\<forall>step \<in> set (currentSteps state'). canonical (formula step)"
proof -
  from assms(1) obtain premise where
    p: "findStep (currentSteps state) (ids ! 0) = Some premise"
    by (auto simp: rule_CE_def split: if_splits option.splits)
  from findStep_canonical [OF c p] have cp: "canonical (formula premise)" .
  from assms(1) p cp c show ?thesis
    by (auto simp: rule_CE_def appendStep_def
        split: if_splits formula.splits connective.splits)
qed

lemma rule_DN_canonical:
  assumes "rule_DN state r ids = Inr state'"
    and c: "\<forall>step \<in> set (currentSteps state). canonical (formula step)"
  shows "\<forall>step \<in> set (currentSteps state'). canonical (formula step)"
proof -
  from assms(1) obtain premise where
    p: "findStep (currentSteps state) (ids ! 0) = Some premise"
    by (auto simp: rule_DN_def split: if_splits option.splits)
  from findStep_canonical [OF c p] have cp: "canonical (formula premise)" .
  from assms(1) p cp c show ?thesis
    by (auto simp: rule_DN_def appendStep_def split: if_splits formula.splits)
qed

lemma rule_DI_canonical:
  assumes "rule_DI state r ids nf = Inr state'"
    and c: "\<forall>step \<in> set (currentSteps state). canonical (formula step)"
    and n: "\<forall>q. nf = Some q \<longrightarrow> canonical q"
  shows "\<forall>step \<in> set (currentSteps state'). canonical (formula step)"
proof -
  from assms(1) obtain premise q where
    p: "findStep (currentSteps state) (ids ! 0) = Some premise" and q: "nf = Some q"
    by (auto simp: rule_DI_def split: if_splits option.splits)
  from findStep_canonical [OF c p] have cp: "canonical (formula premise)" .
  from n q have cq: "canonical q" by simp
  from assms(1) p q cp cq c show ?thesis
    by (auto simp: rule_DI_def appendStep_def split: if_splits)
qed

lemma dsCandidates_parts:
  "dsCandidates f g = Some (d, n) \<Longrightarrow> (d = f \<and> n = g) \<or> (d = g \<and> n = f)"
  by (auto simp: dsCandidates_def split: formula.splits connective.splits)

lemma rule_DS_canonical:
  assumes "rule_DS state r ids = Inr state'"
    and c: "\<forall>step \<in> set (currentSteps state). canonical (formula step)"
  shows "\<forall>step \<in> set (currentSteps state'). canonical (formula step)"
proof -
  let ?ps = "found (map (findStep (currentSteps state)) ids)"
  from assms(1) have len: "length ?ps = 2"
    by (auto simp: rule_DS_def Let_def split: if_splits)
  then have "?ps ! 0 \<in> set ?ps" "?ps ! 1 \<in> set ?ps" by simp_all
  then have p: "canonical (formula (?ps ! 0))" "canonical (formula (?ps ! 1))"
    using found_canonical [OF c] by blast+
  from assms(1) len obtain d n where
    d: "dsCandidates (formula (?ps ! 0)) (formula (?ps ! 1)) = Some (d, n)"
    by (auto simp: rule_DS_def Let_def split: if_splits option.splits)
  from dsCandidates_parts [OF d] p have "canonical d" by auto
  with assms(1) len d c show ?thesis
    by (auto simp: rule_DS_def Let_def appendStep_def
        split: if_splits option.splits formula.splits)
qed

lemma rule_II_canonical:
  assumes "rule_II state ids = Inr state'"
    and c: "\<forall>step \<in> set (currentSteps state). canonical (formula step)"
  shows "\<forall>step \<in> set (currentSteps state'). canonical (formula step)"
proof -
  from rule_II_Inr_full [OF assms(1)] obtain i1 i2 a b
    and assumptionStep conclusionStep :: ProofStep where
    a: "findStep (currentSteps state) i1 = Some a" and
    b: "findStep (currentSteps state) i2 = Some b" and
    ch: "chooseAssumption a b = (assumptionStep, conclusionStep)" and
    s: "state' =
        appendStep state (map (discharge (step_id assumptionStep)) (currentSteps state))
          \<lparr>step_id = nextId state,
           formula = Binary TCLR IMPLIES (formula assumptionStep) (formula conclusionStep),
           rule = II, justification = [step_id assumptionStep, step_id conclusionStep],
           depth = 0, isDischarged = Some False\<rparr>"
    by blast
  from findStep_canonical [OF c a] findStep_canonical [OF c b] ch
  have "canonical (formula assumptionStep) \<and> canonical (formula conclusionStep)"
    by (auto simp: chooseAssumption_def split: if_splits)
  moreover have "\<forall>step \<in> set (map (discharge (step_id assumptionStep)) (currentSteps state)).
      canonical (formula step)"
    using c by (auto simp: discharge_def)
  ultimately show ?thesis unfolding s by (intro appendStep_canonical) simp_all
qed

lemma applyRule_canonical:
  assumes "applyRule state r ids nf = Inr state'"
    and "\<forall>step \<in> set (currentSteps state). canonical (formula step)"
    and "\<forall>q. nf = Some q \<longrightarrow> canonical q"
  shows "\<forall>step \<in> set (currentSteps state'). canonical (formula step)"
  using assms(1)
  by (auto simp only: applyRule_def split: if_splits
      dest: rule_MP_canonical [OF _ assms(2)] rule_CI_canonical [OF _ assms(2)]
        rule_CE_canonical [OF _ assms(2)] rule_DN_canonical [OF _ assms(2)]
        rule_DI_canonical [OF _ assms(2,3)] rule_DS_canonical [OF _ assms(2)]
        rule_II_canonical [OF _ assms(2)])

lemma INITIAL_PROOF_STATE_canonical:
  "\<forall>step \<in> set (currentSteps INITIAL_PROOF_STATE). canonical (formula step)"
  by (simp add: INITIAL_PROOF_STATE_def step1_def step2_def)

subsection \<open>Claims\<close>

text \<open>
  C1. The claim is that a selected id with no step in \<open>state.currentSteps\<close> makes every
  rule fail with the not-found error. The CI branch does not: it has no test on the number
  of steps found, which the MP and DS branches have. On the initial state with the selected
  ids 1 and 99 (no step has id 99) CI fails with the \<open>TypeError\<close> of reading \<open>formula\<close> of
  \<open>undefined\<close>, where MP and DS on the same input fail with the not-found error.
\<close>

theorem CI_missing_step:
  "applyRule INITIAL_PROOF_STATE CI [1, 99] None = Inl TypeError \<and>
   applyRule INITIAL_PROOF_STATE MP [1, 99] None = Inl StepNotFound \<and>
   applyRule INITIAL_PROOF_STATE DS [1, 99] None = Inl StepNotFound"
  by (simp add: applyRule_def rule_CI_def rule_MP_def rule_DS_def findStep_INITIAL)

text \<open>
  The same for any state: with two selected ids of which one has no step, CI fails with
  the \<open>TypeError\<close>; and every other rule, given its number of ids (and, for DI, the
  secondary formula the rule table counts with the arity), fails with the not-found error.
\<close>

lemma CI_missing_step_any:
  assumes "length selectedStepIds = 2" "i \<in> set selectedStepIds"
    "findStep (currentSteps state) i = None"
  shows "applyRule state CI selectedStepIds newFormulaAst = Inl TypeError"
proof -
  let ?premises = "found (map (findStep (currentSteps state)) selectedStepIds)"
  have "length ?premises \<noteq> 2" using found_missing [OF assms(2,3)] assms(1) by simp
  moreover have "length ?premises \<le> 2"
    using found_length [of "map (findStep (currentSteps state)) selectedStepIds"] assms(1) by simp
  ultimately have "length ?premises < 2" by simp
  then have "?premises = [] \<or> (\<exists>a. ?premises = [a])"
    by (cases ?premises) (auto simp: length_Suc_conv)
  then show ?thesis using assms(1) by (auto simp: applyRule_def rule_CI_def)
qed

lemma other_rules_missing_step:
  assumes "i \<in> set selectedStepIds" "findStep (currentSteps state) i = None"
  shows "length selectedStepIds = 2 \<Longrightarrow>
           applyRule state MP selectedStepIds newFormulaAst = Inl StepNotFound"
    and "length selectedStepIds = 2 \<Longrightarrow>
           applyRule state DS selectedStepIds newFormulaAst = Inl StepNotFound"
    and "length selectedStepIds = 2 \<Longrightarrow>
           applyRule state II selectedStepIds newFormulaAst = Inl StepNotFound"
    and "length selectedStepIds = 1 \<Longrightarrow>
           applyRule state CE_LEFT selectedStepIds newFormulaAst = Inl StepNotFound"
    and "length selectedStepIds = 1 \<Longrightarrow>
           applyRule state CE_RIGHT selectedStepIds newFormulaAst = Inl StepNotFound"
    and "length selectedStepIds = 1 \<Longrightarrow>
           applyRule state DN selectedStepIds newFormulaAst = Inl StepNotFound"
    and "length selectedStepIds = 1 \<Longrightarrow>
           applyRule state DI_LEFT selectedStepIds (Some q) = Inl StepNotFound"
    and "length selectedStepIds = 1 \<Longrightarrow>
           applyRule state DI_RIGHT selectedStepIds (Some q) = Inl StepNotFound"
proof -
  have two: "length (found (map (findStep (currentSteps state)) selectedStepIds)) \<noteq> 2"
    if "length selectedStepIds = 2"
    using found_missing [OF assms] that by simp
  have one: "findStep (currentSteps state) (selectedStepIds ! 0) = None"
    if "length selectedStepIds = 1"
    using assms that by (cases selectedStepIds) auto
  have pair: "findStep (currentSteps state) (selectedStepIds ! 0) = None \<or>
      findStep (currentSteps state) (selectedStepIds ! 1) = None"
    if "length selectedStepIds = 2"
  proof -
    from that obtain x y where "selectedStepIds = [x, y]"
      by (cases selectedStepIds; cases "tl selectedStepIds") auto
    then show ?thesis using assms by auto
  qed
  show "length selectedStepIds = 2 \<Longrightarrow>
           applyRule state MP selectedStepIds newFormulaAst = Inl StepNotFound"
    using two by (simp add: applyRule_def rule_MP_def)
  show "length selectedStepIds = 2 \<Longrightarrow>
           applyRule state DS selectedStepIds newFormulaAst = Inl StepNotFound"
    using two by (simp add: applyRule_def rule_DS_def)
  show "length selectedStepIds = 2 \<Longrightarrow>
           applyRule state II selectedStepIds newFormulaAst = Inl StepNotFound"
    using pair by (auto simp: applyRule_def rule_II_def split: option.splits)
  show "length selectedStepIds = 1 \<Longrightarrow>
           applyRule state CE_LEFT selectedStepIds newFormulaAst = Inl StepNotFound"
    using one by (simp add: applyRule_def rule_CE_def)
  show "length selectedStepIds = 1 \<Longrightarrow>
           applyRule state CE_RIGHT selectedStepIds newFormulaAst = Inl StepNotFound"
    using one by (simp add: applyRule_def rule_CE_def)
  show "length selectedStepIds = 1 \<Longrightarrow>
           applyRule state DN selectedStepIds newFormulaAst = Inl StepNotFound"
    using one by (simp add: applyRule_def rule_DN_def)
  show "length selectedStepIds = 1 \<Longrightarrow>
           applyRule state DI_LEFT selectedStepIds (Some q) = Inl StepNotFound"
    using one by (simp add: applyRule_def rule_DI_def)
  show "length selectedStepIds = 1 \<Longrightarrow>
           applyRule state DI_RIGHT selectedStepIds (Some q) = Inl StepNotFound"
    using one by (simp add: applyRule_def rule_DI_def)
qed

text \<open>
  Without its secondary formula DI fails on that account, before any step is looked up.
\<close>

lemma DI_without_secondary:
  "length selectedStepIds = 1 \<Longrightarrow>
     applyRule state DI_LEFT selectedStepIds None = Inl MissingSecondaryFormula \<and>
     applyRule state DI_RIGHT selectedStepIds None = Inl MissingSecondaryFormula"
  by (simp add: applyRule_def rule_DI_def)

text \<open>
  C2. Let the two selected ids resolve to the steps \<open>a\<close> and \<open>b\<close>, and let the
  specification's rule choose the assumption and the conclusion among them: the one
  tagged \<open>ASSUME\<close> when exactly one is, the one with the smaller id otherwise. Then II
  succeeds, and the state it returns is the input state in which every existing step that
  carries the assumption's id has \<open>isDischarged = true\<close>, every other existing step is
  unchanged, and one step is appended: its id is \<open>nextId\<close>, its formula is
  \<open>Implies(assumption.formula, conclusion.formula)\<close>, its justification is
  \<open>[assumptionId, conclusionId]\<close> in that order and its depth is 0; \<open>nextId\<close> is the sum
  of numbers \<open>nextId + 1\<close>.
  The engine knows a step by its id, so "the assumption step" is the step with that id.
\<close>

theorem II_discharges_assumption:
  assumes "findStep (currentSteps state) i1 = Some a"
    and "findStep (currentSteps state) i2 = Some b"
    and "chooseAssumption a b = (assumptionStep, conclusionStep)"
  shows "applyRule state II [i1, i2] newFormulaAst =
     Inr (state\<lparr>currentSteps :=
            map (\<lambda>step. if step_id step = step_id assumptionStep
                         then step\<lparr>isDischarged := Some True\<rparr> else step)
                (currentSteps state) @
            [\<lparr>step_id = nextId state,
              formula = Binary TCLR IMPLIES (formula assumptionStep) (formula conclusionStep),
              rule = II,
              justification = [step_id assumptionStep, step_id conclusionStep],
              depth = 0, isDischarged = Some False\<rparr>],
          nextId := numberAdd (nextId state) 1\<rparr>)"
proof -
  have "discharge (step_id assumptionStep) =
      (\<lambda>step. if step_id step = step_id assumptionStep
                         then step\<lparr>isDischarged := Some True\<rparr> else step)"
    by (rule ext) (simp add: discharge_def)
  then show ?thesis
    unfolding applyRule_def rule_II_two [OF assms(1,2)] assumptionAndConclusion_spec assms(3)
    by (simp add: appendStep_def)
qed

text \<open>
  On \<open>afterMP\<close> with the ids 3 and 2 in this order: only line 2 is tagged \<open>ASSUME\<close>, so
  it is the assumption although it was selected second, and the result is \<open>afterII\<close>.
\<close>

theorem II_discharges_assumption_witness:
  "findStep (currentSteps afterMP) 3 = Some step3 \<and>
   findStep (currentSteps afterMP) 2 = Some step2 \<and>
   chooseAssumption step3 step2 = (step2, step3) \<and>
   applyRule afterMP II [3, 2] None = Inr afterII"
proof -
  have c: "chooseAssumption step3 step2 = (step2, step3)"
    by (simp add: chooseAssumption_def example_defs)
  have "applyRule afterMP II [3, 2] None = Inr afterII"
    unfolding II_discharges_assumption [OF findStep_afterMP(2) findStep_afterMP(1) c]
    by (simp add: example_defs)
  then show ?thesis using c findStep_afterMP by simp
qed

text \<open>
  C3, as amended. Let the two selected ids resolve to the steps \<open>p\<close> and \<open>q\<close>. If the
  formula of \<open>p\<close> is \<open>Implies(A, B)\<close> and the formula of \<open>q\<close> is structurally equal to \<open>A\<close>
  with the keys of every node in the same order as in \<open>A\<close> (\<open>sameObject\<close>; this holds of
  any two structurally equal formulas that both keep the order of the repository), then
  MP succeeds with the ids in either order, and in both orders the appended step has the
  formula \<open>B\<close> and the larger of the two depths (the results differ in the justification
  alone, which is the list of ids as selected). If neither step is an implication whose
  left side is the same object as the formula of the other, MP fails with the pattern
  error.
\<close>

theorem MP_either_order:
  assumes "findStep (currentSteps state) i1 = Some p"
    and "findStep (currentSteps state) i2 = Some q"
  shows "(isImplies (formula p) A B \<and>
          (sameObject A (formula q) \<or>
           canonical (formula p) \<and> canonical (formula q) \<and> formula_eq_ref A (formula q)) \<longrightarrow>
           applyRule state MP [i1, i2] newFormulaAst =
             Inr (state\<lparr>currentSteps := currentSteps state @
                    [\<lparr>step_id = nextId state, formula = B, rule = MP,
                      justification = [i1, i2], depth = max (depth p) (depth q),
                      isDischarged = None\<rparr>],
                  nextId := numberAdd (nextId state) 1\<rparr>) \<and>
           applyRule state MP [i2, i1] newFormulaAst =
             Inr (state\<lparr>currentSteps := currentSteps state @
                    [\<lparr>step_id = nextId state, formula = B, rule = MP,
                      justification = [i2, i1], depth = max (depth p) (depth q),
                      isDischarged = None\<rparr>],
                  nextId := numberAdd (nextId state) 1\<rparr>))
       \<and> ((\<forall>A B. isImplies (formula p) A B \<longrightarrow> \<not> sameObject A (formula q)) \<and>
          (\<forall>A B. isImplies (formula q) A B \<longrightarrow> \<not> sameObject A (formula p)) \<longrightarrow>
           applyRule state MP [i1, i2] newFormulaAst = Inl PatternMismatch)"
proof (intro conjI impI)
  assume h: "isImplies (formula p) A B \<and>
          (sameObject A (formula q) \<or>
           canonical (formula p) \<and> canonical (formula q) \<and> formula_eq_ref A (formula q))"
  then have "sameObject A (formula q)"
    using canonical_parts(1) [of "formula p" A B] canonical_sameObject [of A "formula q"]
    by blast
  then have q: "formula q = A" by (simp add: sameObject_iff)
  with h have 1: "mpConclusion (formula p) (formula q) = Some B"
    by (simp add: mpConclusion_Some)
  show "applyRule state MP [i1, i2] newFormulaAst =
             Inr (state\<lparr>currentSteps := currentSteps state @
                    [\<lparr>step_id = nextId state, formula = B, rule = MP,
                      justification = [i1, i2], depth = max (depth p) (depth q),
                      isDischarged = None\<rparr>],
                  nextId := numberAdd (nextId state) 1\<rparr>)"
    by (simp add: applyRule_def rule_MP_two [OF assms] 1 appendStep_def)
  have 2: "mpConclusion (formula q) (formula p) = None"
    using h q isImplies_not_mutual [of "formula p" A B] by (simp add: mpConclusion_None)
  show "applyRule state MP [i2, i1] newFormulaAst =
             Inr (state\<lparr>currentSteps := currentSteps state @
                    [\<lparr>step_id = nextId state, formula = B, rule = MP,
                      justification = [i2, i1], depth = max (depth p) (depth q),
                      isDischarged = None\<rparr>],
                  nextId := numberAdd (nextId state) 1\<rparr>)"
    by (simp add: applyRule_def rule_MP_two [OF assms(2,1)] 1 2 appendStep_def max.commute)
next
  assume h: "(\<forall>A B. isImplies (formula p) A B \<longrightarrow> \<not> sameObject A (formula q)) \<and>
          (\<forall>A B. isImplies (formula q) A B \<longrightarrow> \<not> sameObject A (formula p))"
  then have "mpConclusion (formula p) (formula q) = None"
    "mpConclusion (formula q) (formula p) = None"
    by (auto simp: mpConclusion_None sameObject_iff)
  then show "applyRule state MP [i1, i2] newFormulaAst = Inl PatternMismatch"
    by (simp add: applyRule_def rule_MP_two [OF assms])
qed

text \<open>
  On the initial state, lines 1 (\<open>P \<rightarrow> Q\<close>) and 2 (\<open>P\<close>) give \<open>Q\<close> in both orders; on
  \<open>afterMP\<close>, lines 2 (\<open>P\<close>) and 3 (\<open>Q\<close>) match in neither order.
\<close>

theorem MP_either_order_witness:
  "isImplies (formula step1) (Atom TypeName (ascii ''P'')) (Atom TypeName (ascii ''Q'')) \<and>
   sameObject (Atom TypeName (ascii ''P'')) (formula step2) \<and>
   applyRule INITIAL_PROOF_STATE MP [1, 2] None = Inr afterMP \<and>
   applyRule INITIAL_PROOF_STATE MP [2, 1] None =
     Inr (afterMP\<lparr>currentSteps := [step1, step2, step3\<lparr>justification := [2, 1]\<rparr>]\<rparr>) \<and>
   applyRule afterMP MP [2, 3] None = Inl PatternMismatch"
proof -
  have m: "isImplies (formula step1) (Atom TypeName (ascii ''P'')) (Atom TypeName (ascii ''Q'')) \<and>
      (sameObject (Atom TypeName (ascii ''P'')) (formula step2) \<or>
       canonical (formula step1) \<and> canonical (formula step2) \<and>
       formula_eq_ref (Atom TypeName (ascii ''P'')) (formula step2))"
    by (simp add: example_defs isImplies_def sameObject_def)
  have n: "(\<forall>A B. isImplies (formula step2) A B \<longrightarrow> \<not> sameObject A (formula step3)) \<and>
      (\<forall>A B. isImplies (formula step3) A B \<longrightarrow> \<not> sameObject A (formula step2))"
    by (simp add: example_defs isImplies_def)
  note yes = MP_either_order [OF findStep_INITIAL(1,2), THEN conjunct1, THEN mp, OF m,
      of None]
  note no = MP_either_order [OF findStep_afterMP(1,2), THEN conjunct2, THEN mp, OF n,
      of None]
  from yes no m show ?thesis by (simp add: example_defs isImplies_def sameObject_def)
qed

text \<open>
  The claim as stated fails on \<open>permutedState\<close>: line 1 is \<open>Implies(P, Q)\<close> and line 2 is
  structurally equal to \<open>P\<close>, the same tag and the same name, with its two keys in the
  other order. The two serialisations differ, and MP fails with the pattern error in both
  orders of the ids.
\<close>

theorem MP_keys_in_another_order:
  "findStep (currentSteps permutedState) 1 = Some step1 \<and>
   findStep (currentSteps permutedState) 2 = Some step2Permuted \<and>
   isImplies (formula step1) (Atom TypeName (ascii ''P'')) (Atom TypeName (ascii ''Q'')) \<and>
   formula_eq_ref (Atom TypeName (ascii ''P'')) (formula step2Permuted) \<and>
   applyRule permutedState MP [1, 2] None = Inl PatternMismatch \<and>
   applyRule permutedState MP [2, 1] None = Inl PatternMismatch"
proof -
  have 1: "applyRule permutedState MP [1, 2] None = Inl PatternMismatch"
    unfolding applyRule_def rule_MP_two [OF findStep_permuted(1,2)]
    by (simp add: mpConclusion_def isFormulaEqual_iff step1_def step2_def step2Permuted_def)
  have 2: "applyRule permutedState MP [2, 1] None = Inl PatternMismatch"
    unfolding applyRule_def rule_MP_two [OF findStep_permuted(2,1)]
    by (simp add: mpConclusion_def isFormulaEqual_iff step1_def step2_def step2Permuted_def)
  show ?thesis using 1 2 findStep_permuted
    by (simp add: isImplies_def step1_def step2_def step2Permuted_def)
qed

text \<open>
  C5, as amended. Let the two selected ids resolve to the steps \<open>p\<close> and \<open>q\<close>. If one
  of the two formulas is \<open>Or(A, B)\<close> and the other is \<open>Not(X)\<close> (\<open>dsPattern\<close>, either
  assignment), then DS succeeds when \<open>X\<close> is structurally equal to \<open>A\<close> with the keys of
  every node in the same order, appending \<open>B\<close>, and when \<open>X\<close> is so equal to \<open>B\<close>,
  appending \<open>A\<close>, each with the larger of the two depths; structural equality alone is
  enough when both formulas keep the order of the repository. When the two formulas fit
  the pattern for no \<open>A\<close>, \<open>B\<close> and \<open>X\<close> with \<open>X\<close> the same object as \<open>A\<close> or as \<open>B\<close>, DS
  fails with the pattern error. So DS succeeds exactly when this pattern holds.
\<close>

theorem DS_exactly_on_pattern:
  assumes "findStep (currentSteps state) i1 = Some p"
    and "findStep (currentSteps state) i2 = Some q"
  shows "(dsPattern (formula p) (formula q) A B X \<and>
          (sameObject A X \<or>
           canonical (formula p) \<and> canonical (formula q) \<and> formula_eq_ref A X) \<longrightarrow>
           applyRule state DS [i1, i2] newFormulaAst =
             Inr (state\<lparr>currentSteps := currentSteps state @
                    [\<lparr>step_id = nextId state, formula = B, rule = DS,
                      justification = [i1, i2], depth = max (depth p) (depth q),
                      isDischarged = None\<rparr>],
                  nextId := numberAdd (nextId state) 1\<rparr>))
       \<and> (dsPattern (formula p) (formula q) A B X \<and>
          (sameObject B X \<or>
           canonical (formula p) \<and> canonical (formula q) \<and> formula_eq_ref B X) \<longrightarrow>
           applyRule state DS [i1, i2] newFormulaAst =
             Inr (state\<lparr>currentSteps := currentSteps state @
                    [\<lparr>step_id = nextId state, formula = A, rule = DS,
                      justification = [i1, i2], depth = max (depth p) (depth q),
                      isDischarged = None\<rparr>],
                  nextId := numberAdd (nextId state) 1\<rparr>))
       \<and> ((\<forall>A B X. dsPattern (formula p) (formula q) A B X \<longrightarrow>
              \<not> sameObject A X \<and> \<not> sameObject B X) \<longrightarrow>
           applyRule state DS [i1, i2] newFormulaAst = Inl PatternMismatch)"
proof (intro conjI impI)
  assume h: "dsPattern (formula p) (formula q) A B X \<and>
          (sameObject A X \<or>
           canonical (formula p) \<and> canonical (formula q) \<and> formula_eq_ref A X)"
  then have parts: "canonical (formula p) \<and> canonical (formula q) \<longrightarrow> canonical A \<and> canonical X"
    using canonical_parts(2,3) unfolding dsPattern_def by blast
  with h have "sameObject A X" using canonical_sameObject [of A X] by blast
  then have x: "X = A" by (simp add: sameObject_iff)
  from h obtain ks ks' where
    "dsCandidates (formula p) (formula q) = Some (Binary ks OR A B, Not ks' X)"
    using dsCandidates_pattern by blast
  with x show "applyRule state DS [i1, i2] newFormulaAst =
             Inr (state\<lparr>currentSteps := currentSteps state @
                    [\<lparr>step_id = nextId state, formula = B, rule = DS,
                      justification = [i1, i2], depth = max (depth p) (depth q),
                      isDischarged = None\<rparr>],
                  nextId := numberAdd (nextId state) 1\<rparr>)"
    by (simp add: applyRule_def rule_DS_two [OF assms] isFormulaEqual_iff appendStep_def)
next
  assume h: "dsPattern (formula p) (formula q) A B X \<and>
          (sameObject B X \<or>
           canonical (formula p) \<and> canonical (formula q) \<and> formula_eq_ref B X)"
  then have parts: "canonical (formula p) \<and> canonical (formula q) \<longrightarrow> canonical B \<and> canonical X"
    using canonical_parts(2,3) unfolding dsPattern_def by blast
  with h have "sameObject B X" using canonical_sameObject [of B X] by blast
  then have x: "X = B" by (simp add: sameObject_iff)
  from h obtain ks ks' where
    "dsCandidates (formula p) (formula q) = Some (Binary ks OR A B, Not ks' X)"
    using dsCandidates_pattern by blast
  with x show "applyRule state DS [i1, i2] newFormulaAst =
             Inr (state\<lparr>currentSteps := currentSteps state @
                    [\<lparr>step_id = nextId state, formula = A, rule = DS,
                      justification = [i1, i2], depth = max (depth p) (depth q),
                      isDischarged = None\<rparr>],
                  nextId := numberAdd (nextId state) 1\<rparr>)"
    by (simp add: applyRule_def rule_DS_two [OF assms] isFormulaEqual_iff appendStep_def)
next
  assume h: "\<forall>A B X. dsPattern (formula p) (formula q) A B X \<longrightarrow>
              \<not> sameObject A X \<and> \<not> sameObject B X"
  show "applyRule state DS [i1, i2] newFormulaAst = Inl PatternMismatch"
    using h
    by (auto simp: applyRule_def rule_DS_two [OF assms] isFormulaEqual_iff sameObject_iff
        split: option.splits formula.splits prod.splits dest!: dsCandidates_Some)
qed

text \<open>
  On \<open>dsState\<close>: lines 2 (\<open>\<not>P\<close>) and 1 (\<open>P \<or> Q\<close>), the negation selected first, give
  \<open>Q\<close> at depth 1; lines 1 and 4 (\<open>\<not>Q\<close>) give \<open>P\<close>; lines 1 and 3 (\<open>\<not>R\<close>) fail.
\<close>

theorem DS_exactly_on_pattern_witness:
  "dsPattern (formula (currentSteps dsState ! 1)) (formula (currentSteps dsState ! 0))
      (Atom TypeName (ascii ''P'')) (Atom TypeName (ascii ''Q'')) (Atom TypeName (ascii ''P'')) \<and>
   applyRule dsState DS [2, 1] None =
     Inr (dsState\<lparr>currentSteps := currentSteps dsState @
            [\<lparr>step_id = 5, formula = Atom TypeName (ascii ''Q''), rule = DS,
              justification = [2, 1], depth = 1, isDischarged = None\<rparr>],
          nextId := 6\<rparr>) \<and>
   applyRule dsState DS [1, 4] None =
     Inr (dsState\<lparr>currentSteps := currentSteps dsState @
            [\<lparr>step_id = 5, formula = Atom TypeName (ascii ''P''), rule = DS,
              justification = [1, 4], depth = 0, isDischarged = None\<rparr>],
          nextId := 6\<rparr>) \<and>
   applyRule dsState DS [1, 3] None = Inl PatternMismatch"
proof -
  have a: "dsPattern (formula (currentSteps dsState ! 1)) (formula (currentSteps dsState ! 0))
      (Atom TypeName (ascii ''P'')) (Atom TypeName (ascii ''Q'')) (Atom TypeName (ascii ''P'')) \<and>
      (sameObject (Atom TypeName (ascii ''P'')) (Atom TypeName (ascii ''P'')) \<or>
       canonical (formula (currentSteps dsState ! 1)) \<and>
       canonical (formula (currentSteps dsState ! 0)) \<and>
       formula_eq_ref (Atom TypeName (ascii ''P'')) (Atom TypeName (ascii ''P'')))"
    by (simp add: example_defs dsPattern_def isOr_def isNot_def sameObject_iff)
  have b: "dsPattern (formula (currentSteps dsState ! 0)) (formula (currentSteps dsState ! 3))
      (Atom TypeName (ascii ''P'')) (Atom TypeName (ascii ''Q'')) (Atom TypeName (ascii ''Q'')) \<and>
      (sameObject (Atom TypeName (ascii ''Q'')) (Atom TypeName (ascii ''Q'')) \<or>
       canonical (formula (currentSteps dsState ! 0)) \<and>
       canonical (formula (currentSteps dsState ! 3)) \<and>
       formula_eq_ref (Atom TypeName (ascii ''Q'')) (Atom TypeName (ascii ''Q'')))"
    by (simp add: example_defs dsPattern_def isOr_def isNot_def sameObject_iff)
  have n: "\<forall>A B X. dsPattern (formula (currentSteps dsState ! 0))
      (formula (currentSteps dsState ! 2)) A B X \<longrightarrow> \<not> sameObject A X \<and> \<not> sameObject B X"
    by (simp add: example_defs dsPattern_def isOr_def isNot_def sameObject_iff)
  note first = DS_exactly_on_pattern [OF findStep_dsState(2,1), THEN conjunct1, THEN mp,
      OF a, of None]
  note second = DS_exactly_on_pattern [OF findStep_dsState(1,4), THEN conjunct2,
      THEN conjunct1, THEN mp, OF b, of None]
  note none = DS_exactly_on_pattern [OF findStep_dsState(1,3), THEN conjunct2,
      THEN conjunct2, THEN mp, OF n, of None]
  from first second none a show ?thesis by (simp add: example_defs)
qed

text \<open>
  The claim as stated fails on \<open>dsPermuted\<close>: line 1 is \<open>Or(P, Q)\<close> and line 2 is
  \<open>Not(X)\<close> with \<open>X\<close> structurally equal to \<open>P\<close>, its two keys in the other order. The
  serialisations of \<open>P\<close> and \<open>X\<close> differ, and DS fails with the pattern error.
\<close>

theorem DS_keys_in_another_order:
  "dsPattern (formula (currentSteps dsPermuted ! 0)) (formula (currentSteps dsPermuted ! 1))
      (Atom TypeName (ascii ''P'')) (Atom TypeName (ascii ''Q'')) (Atom NameType (ascii ''P'')) \<and>
   formula_eq_ref (Atom TypeName (ascii ''P'')) (Atom NameType (ascii ''P'')) \<and>
   applyRule dsPermuted DS [1, 2] None = Inl PatternMismatch \<and>
   applyRule dsPermuted DS [2, 1] None = Inl PatternMismatch"
proof -
  have 1: "applyRule dsPermuted DS [1, 2] None = Inl PatternMismatch"
    unfolding applyRule_def rule_DS_two [OF findStep_dsPermuted(1,2)]
    by (simp add: dsCandidates_def isFormulaEqual_iff dsPermuted_def dsState_def)
  have 2: "applyRule dsPermuted DS [2, 1] None = Inl PatternMismatch"
    unfolding applyRule_def rule_DS_two [OF findStep_dsPermuted(2,1)]
    by (simp add: dsCandidates_def isFormulaEqual_iff dsPermuted_def dsState_def)
  show ?thesis using 1 2
    by (simp add: dsPattern_def isOr_def isNot_def dsPermuted_def dsState_def)
qed

text \<open>
  C7, as amended. For every successful call of \<open>applyRule\<close>, with any rule and any
  arguments: the last step of the returned \<open>currentSteps\<close>, the appended one, has the
  input \<open>nextId\<close> as its id, and the returned \<open>nextId\<close> is the sum of numbers
  \<open>nextId + 1\<close>. When the input \<open>nextId\<close> is an integer from -2 to the power 53 to 2 to
  the power 53 less one, this sum is \<open>nextId + 1\<close> exactly, and if \<open>nextId\<close> exceeds every
  id in \<open>currentSteps\<close> before the call, it does so after it.
\<close>

theorem applyRule_nextId:
  assumes "applyRule state ruleName selectedStepIds newFormulaAst = Inr state'"
  shows "currentSteps state' \<noteq> [] \<and>
         step_id (last (currentSteps state')) = nextId state \<and>
         nextId state' = numberAdd (nextId state) 1 \<and>
         (- (2 ^ 53) \<le> nextId state \<and> nextId state < 2 ^ 53 \<longrightarrow>
            nextId state' = nextId state + 1 \<and>
            ((\<forall>step \<in> set (currentSteps state). step_id step < nextId state) \<longrightarrow>
             (\<forall>step \<in> set (currentSteps state'). step_id step < nextId state')))"
proof -
  from applyRule_Inr [OF assms] obtain newStep steps where
    n: "step_id newStep = nextId state" and
    s: "state' = appendStep state steps newStep" and
    st: "if ruleName = II then \<exists>a. steps = map (discharge a) (currentSteps state)
         else steps = currentSteps state"
    by blast
  have ids: "map step_id steps = map step_id (currentSteps state)"
    using st by (auto simp: discharge_def split: if_splits)
  then have "step_id ` set steps = step_id ` set (currentSteps state)"
    by (metis set_map)
  then have old: "(\<forall>step \<in> set (currentSteps state). step_id step < nextId state) \<longrightarrow>
          (\<forall>step \<in> set steps. step_id step < nextId state)"
    by (metis image_iff)
  have 1: "currentSteps state' \<noteq> [] \<and> step_id (last (currentSteps state')) = nextId state \<and>
      nextId state' = numberAdd (nextId state) 1"
    using n s by (simp add: appendStep_def)
  have 2: "nextId state' = nextId state + 1 \<and>
      ((\<forall>step \<in> set (currentSteps state). step_id step < nextId state) \<longrightarrow>
       (\<forall>step \<in> set (currentSteps state'). step_id step < nextId state'))"
    if "- (2 ^ 53) \<le> nextId state \<and> nextId state < 2 ^ 53"
  proof -
    have "numberAdd (nextId state) 1 = nextId state + 1"
      using that by (simp add: numberAdd_1_exact)
    then show ?thesis using n s old by (auto simp: appendStep_def)
  qed
  from 1 2 show ?thesis by blast
qed

text \<open>
  The II call of the example: \<open>nextId\<close> goes from 4 to 5, the appended step has id 4, and
  5 exceeds the ids 1, 2, 3 and 4.
\<close>

theorem applyRule_nextId_witness:
  "applyRule afterMP II [3, 2] None = Inr afterII \<and>
   - (2 ^ 53) \<le> nextId afterMP \<and> nextId afterMP < 2 ^ 53 \<and>
   nextId afterII = nextId afterMP + 1 \<and>
   step_id (last (currentSteps afterII)) = nextId afterMP \<and>
   list_all (\<lambda>step. step_id step < nextId afterMP) (currentSteps afterMP) \<and>
   list_all (\<lambda>step. step_id step < nextId afterII) (currentSteps afterII)"
proof -
  note r = afterMP_II
  have b: "- (2 ^ 53) \<le> nextId afterMP \<and> nextId afterMP < 2 ^ 53"
    by (simp add: example_defs)
  have i: "\<forall>step \<in> set (currentSteps afterMP). step_id step < nextId afterMP"
    by (simp add: example_defs)
  from applyRule_nextId [OF r] b i have
    "nextId afterII = nextId afterMP + 1"
    "step_id (last (currentSteps afterII)) = nextId afterMP"
    "\<forall>step \<in> set (currentSteps afterII). step_id step < nextId afterII"
    by blast+
  then show ?thesis unfolding list_all_iff using r b i by blast
qed

text \<open>
  The claim as stated fails on \<open>bigState\<close>, where \<open>nextId\<close> is 2 to the power 53 and
  exceeds the ids 1 and 2: MP on lines 1 and 2 succeeds, the sum of numbers
  \<open>nextId + 1\<close> is 2 to the power 53 again, so the returned \<open>nextId\<close> is the input \<open>nextId\<close>
  and not one more, and it is the id of the new step, which it does not exceed.
\<close>

theorem nextId_stays_at_2_53:
  "applyRule bigState MP [1, 2] None = Inr bigAfter \<and>
   list_all (\<lambda>step. step_id step < nextId bigState) (currentSteps bigState) \<and>
   nextId bigAfter = nextId bigState \<and>
   step_id (last (currentSteps bigAfter)) = nextId bigAfter"
proof -
  have "applyRule bigState MP [1, 2] None = Inr bigAfter"
    unfolding applyRule_def rule_MP_two [OF findStep_bigState(1,2)]
    by (simp add: mpConclusion_def isFormulaEqual_iff appendStep_def numberAdd_2_53_numeral
        example_defs)
  then show ?thesis by (simp add: example_defs)
qed

text \<open>
  C8, as amended. For every successful call of \<open>applyRule\<close>: \<open>premises\<close> and \<open>goal\<close> are
  those of the input and \<open>currentSteps\<close> is one step longer. For a rule other than II the
  existing steps come back as they were. For II the selected ids are two ids that resolve
  to steps, and the existing steps come back with \<open>isDischarged = true\<close> on every step
  that carries the id of the assumption the discharge rule chooses among the two, and as
  they were otherwise. So at every position the returned step has the id, formula, rule,
  justification and depth of the input step, and if it differs from the input step at all
  then the rule is II and its \<open>isDischarged\<close> is \<open>true\<close>; and when the ids of the input
  steps are pairwise distinct, at most one position differs. (The claim says that II
  changes exactly one existing step. It changes none when the assumption is discharged
  already.)
\<close>

theorem applyRule_frame:
  assumes "applyRule state ruleName selectedStepIds newFormulaAst = Inr state'"
  shows "premises state' = premises state \<and> goal state' = goal state \<and>
    length (currentSteps state') = Suc (length (currentSteps state)) \<and>
    (ruleName \<noteq> II \<longrightarrow>
       take (length (currentSteps state)) (currentSteps state') = currentSteps state) \<and>
    (ruleName = II \<longrightarrow>
       (\<exists>i1 i2 a b assumptionStep conclusionStep.
          selectedStepIds = [i1, i2] \<and>
          findStep (currentSteps state) i1 = Some a \<and>
          findStep (currentSteps state) i2 = Some b \<and>
          chooseAssumption a b = (assumptionStep, conclusionStep) \<and>
          take (length (currentSteps state)) (currentSteps state') =
            map (\<lambda>step. if step_id step = step_id assumptionStep
                          then step\<lparr>isDischarged := Some True\<rparr> else step)
              (currentSteps state))) \<and>
    (\<forall>k < length (currentSteps state).
       step_id (currentSteps state' ! k) = step_id (currentSteps state ! k) \<and>
       formula (currentSteps state' ! k) = formula (currentSteps state ! k) \<and>
       rule (currentSteps state' ! k) = rule (currentSteps state ! k) \<and>
       justification (currentSteps state' ! k) = justification (currentSteps state ! k) \<and>
       depth (currentSteps state' ! k) = depth (currentSteps state ! k) \<and>
       (currentSteps state' ! k \<noteq> currentSteps state ! k \<longrightarrow>
          ruleName = II \<and> isDischarged (currentSteps state' ! k) = Some True)) \<and>
    (distinct (map step_id (currentSteps state)) \<longrightarrow>
       (\<forall>k < length (currentSteps state). \<forall>j < length (currentSteps state).
          currentSteps state' ! k \<noteq> currentSteps state ! k \<and>
          currentSteps state' ! j \<noteq> currentSteps state ! j \<longrightarrow> k = j))"
proof -
  from applyRule_Inr [OF assms] obtain newStep steps where
    s: "state' = appendStep state steps newStep" and
    st: "if ruleName = II then \<exists>a. steps = map (discharge a) (currentSteps state)
         else steps = currentSteps state"
    by blast
  obtain a where a: "steps = map (discharge a) (currentSteps state) \<and> ruleName = II
      \<or> steps = currentSteps state"
    using st by (auto split: if_splits)
  have len: "length steps = length (currentSteps state)" using a by auto
  have tk: "take (length (currentSteps state)) (currentSteps state') = steps"
    using s len by (simp add: appendStep_def)
  have nth: "\<And>k. k < length (currentSteps state) \<Longrightarrow> currentSteps state' ! k = steps ! k"
    using s len by (simp add: appendStep_def nth_append)
  have other: "take (length (currentSteps state)) (currentSteps state') = currentSteps state"
    if "ruleName \<noteq> II"
    using st that tk by simp
  have ii: "\<exists>i1 i2 a b assumptionStep conclusionStep.
          selectedStepIds = [i1, i2] \<and>
          findStep (currentSteps state) i1 = Some a \<and>
          findStep (currentSteps state) i2 = Some b \<and>
          chooseAssumption a b = (assumptionStep, conclusionStep) \<and>
          take (length (currentSteps state)) (currentSteps state') =
            map (\<lambda>step. if step_id step = step_id assumptionStep
                          then step\<lparr>isDischarged := Some True\<rparr> else step)
              (currentSteps state)"
    if "ruleName = II"
  proof -
    from assms that have "rule_II state selectedStepIds = Inr state'"
      by (simp add: applyRule_def)
    from rule_II_Inr_full [OF this] obtain i1 i2 a b
      and assumptionStep conclusionStep :: ProofStep where
      f: "selectedStepIds = [i1, i2]" "findStep (currentSteps state) i1 = Some a"
        "findStep (currentSteps state) i2 = Some b"
        "chooseAssumption a b = (assumptionStep, conclusionStep)"
      and r: "state' =
        appendStep state (map (discharge (step_id assumptionStep)) (currentSteps state))
          \<lparr>step_id = nextId state,
           formula = Binary TCLR IMPLIES (formula assumptionStep) (formula conclusionStep),
           rule = II, justification = [step_id assumptionStep, step_id conclusionStep],
           depth = 0, isDischarged = Some False\<rparr>"
      by blast
    have d: "discharge (step_id assumptionStep) =
        (\<lambda>step. if step_id step = step_id assumptionStep
                          then step\<lparr>isDischarged := Some True\<rparr> else step)"
      by (rule ext) (simp add: discharge_def)
    have "take (length (currentSteps state)) (currentSteps state') =
        map (discharge (step_id assumptionStep)) (currentSteps state)"
      using r by (simp add: appendStep_def)
    then have t: "take (length (currentSteps state)) (currentSteps state') =
        map (\<lambda>step. if step_id step = step_id assumptionStep
                          then step\<lparr>isDischarged := Some True\<rparr> else step)
          (currentSteps state)"
      unfolding d .
    show ?thesis
      apply (intro exI conjI)
          apply (rule f(1))
         apply (rule f(2))
        apply (rule f(3))
       apply (rule f(4))
      apply (rule t)
      done
  qed
  have sk: "steps ! k = currentSteps state ! k \<or>
      ruleName = II \<and> steps ! k = discharge a (currentSteps state ! k)"
    if "k < length (currentSteps state)" for k
    using a that by auto
  have each: "step_id (steps ! k) = step_id (currentSteps state ! k) \<and>
       formula (steps ! k) = formula (currentSteps state ! k) \<and>
       rule (steps ! k) = rule (currentSteps state ! k) \<and>
       justification (steps ! k) = justification (currentSteps state ! k) \<and>
       depth (steps ! k) = depth (currentSteps state ! k) \<and>
       (steps ! k \<noteq> currentSteps state ! k \<longrightarrow>
          ruleName = II \<and> isDischarged (steps ! k) = Some True)"
    if "k < length (currentSteps state)" for k
    using sk [OF that] discharge_changed [of a "currentSteps state ! k"]
    by (elim disjE conjE) (simp_all only: discharge_fields simp_thms, blast)
  have changed: "step_id (currentSteps state ! k) = a"
    if "k < length (currentSteps state)" "steps ! k \<noteq> currentSteps state ! k" for k
    using sk [OF that(1)] that(2) discharge_changed [of a "currentSteps state ! k"] by metis
  have one: "k = j"
    if "distinct (map step_id (currentSteps state))"
      "k < length (currentSteps state)" "j < length (currentSteps state)"
      "steps ! k \<noteq> currentSteps state ! k" "steps ! j \<noteq> currentSteps state ! j" for k j
    using distinct_ids_same_index [OF that(1-3)] changed [OF that(2,4)] changed [OF that(3,5)]
    by simp
  have p1: "premises state' = premises state \<and> goal state' = goal state \<and>
    length (currentSteps state') = Suc (length (currentSteps state))"
    using s len by (simp add: appendStep_def)
  have p2: "ruleName \<noteq> II \<longrightarrow>
       take (length (currentSteps state)) (currentSteps state') = currentSteps state"
    using other by (rule impI)
  have p3: "ruleName = II \<longrightarrow>
       (\<exists>i1 i2 a b assumptionStep conclusionStep.
          selectedStepIds = [i1, i2] \<and>
          findStep (currentSteps state) i1 = Some a \<and>
          findStep (currentSteps state) i2 = Some b \<and>
          chooseAssumption a b = (assumptionStep, conclusionStep) \<and>
          take (length (currentSteps state)) (currentSteps state') =
            map (\<lambda>step. if step_id step = step_id assumptionStep
                          then step\<lparr>isDischarged := Some True\<rparr> else step)
              (currentSteps state))"
    using ii by (rule impI)
  have p4: "\<forall>k < length (currentSteps state).
       step_id (currentSteps state' ! k) = step_id (currentSteps state ! k) \<and>
       formula (currentSteps state' ! k) = formula (currentSteps state ! k) \<and>
       rule (currentSteps state' ! k) = rule (currentSteps state ! k) \<and>
       justification (currentSteps state' ! k) = justification (currentSteps state ! k) \<and>
       depth (currentSteps state' ! k) = depth (currentSteps state ! k) \<and>
       (currentSteps state' ! k \<noteq> currentSteps state ! k \<longrightarrow>
          ruleName = II \<and> isDischarged (currentSteps state' ! k) = Some True)"
  proof (intro allI impI)
    fix k assume k: "k < length (currentSteps state)"
    show "step_id (currentSteps state' ! k) = step_id (currentSteps state ! k) \<and>
       formula (currentSteps state' ! k) = formula (currentSteps state ! k) \<and>
       rule (currentSteps state' ! k) = rule (currentSteps state ! k) \<and>
       justification (currentSteps state' ! k) = justification (currentSteps state ! k) \<and>
       depth (currentSteps state' ! k) = depth (currentSteps state ! k) \<and>
       (currentSteps state' ! k \<noteq> currentSteps state ! k \<longrightarrow>
          ruleName = II \<and> isDischarged (currentSteps state' ! k) = Some True)"
      unfolding nth [OF k] by (rule each [OF k])
  qed
  have p5: "distinct (map step_id (currentSteps state)) \<longrightarrow>
       (\<forall>k < length (currentSteps state). \<forall>j < length (currentSteps state).
          currentSteps state' ! k \<noteq> currentSteps state ! k \<and>
          currentSteps state' ! j \<noteq> currentSteps state ! j \<longrightarrow> k = j)"
  proof (intro allI impI)
    fix k j
    assume d: "distinct (map step_id (currentSteps state))"
      and k: "k < length (currentSteps state)" and j: "j < length (currentSteps state)"
      and ne: "currentSteps state' ! k \<noteq> currentSteps state ! k \<and>
          currentSteps state' ! j \<noteq> currentSteps state ! j"
    from ne have "steps ! k \<noteq> currentSteps state ! k" "steps ! j \<noteq> currentSteps state ! j"
      unfolding nth [OF k] nth [OF j] by blast+
    then show "k = j" using one [OF d k j] by blast
  qed
  from p1 p2 p3 p4 p5 show ?thesis
    by (elim conjE, intro conjI) assumption+
qed

text \<open>
  The II call of the example, on lines 3 and 2 of \<open>afterMP\<close>: the discharge rule chooses
  line 2, and the call changes line 2 alone, and its \<open>isDischarged\<close> alone.
\<close>

theorem applyRule_frame_witness:
  "applyRule afterMP II [3, 2] None = Inr afterII \<and>
   premises afterII = premises afterMP \<and> goal afterII = goal afterMP \<and>
   length (currentSteps afterII) = Suc (length (currentSteps afterMP)) \<and>
   distinct (map step_id (currentSteps afterMP)) \<and>
   chooseAssumption step3 step2 = (step2, step3) \<and>
   take (length (currentSteps afterMP)) (currentSteps afterII) =
     map (\<lambda>step. if step_id step = step_id step2
                   then step\<lparr>isDischarged := Some True\<rparr> else step)
       (currentSteps afterMP) \<and>
   currentSteps afterII ! 0 = currentSteps afterMP ! 0 \<and>
   currentSteps afterII ! 1 = (currentSteps afterMP ! 1)\<lparr>isDischarged := Some True\<rparr> \<and>
   currentSteps afterII ! 2 = currentSteps afterMP ! 2"
proof -
  note r = afterMP_II
  have d: "distinct (map step_id (currentSteps afterMP))"
    by (simp add: example_defs)
  from applyRule_frame [OF r] have
    "premises afterII = premises afterMP \<and> goal afterII = goal afterMP \<and>
     length (currentSteps afterII) = Suc (length (currentSteps afterMP))"
    by blast
  then show ?thesis using r d by (simp add: example_defs chooseAssumption_def)
qed

text \<open>
  The claim as stated fails on \<open>afterII\<close>, a state the engine itself has produced: II on
  lines 3 and 2 once more succeeds (the result is \<open>afterSecondII\<close>), line 2 is discharged
  already, and each of the four existing steps comes back as it was. No existing step
  differs, where the claim says exactly one does.
\<close>

theorem II_twice_changes_no_step:
  "applyRule afterII II [3, 2] None = Inr afterSecondII \<and>
   length (currentSteps afterII) = 4 \<and>
   take 4 (currentSteps afterSecondII) = currentSteps afterII"
  using afterII_II by (simp add: example_defs)

text \<open>
  C9, as amended. For every pair of formulas, \<open>isFormulaEqual\<close>, which compares the two
  serialisations, returns true exactly when the two are structurally equal by exact
  recursive comparison of the variant tag and all fields and, beyond that, keep their keys
  in the same order at every node. For two formulas that keep the order of the repository
  (\<open>canonical\<close>) it returns true exactly when the reference comparison does.
\<close>

theorem isFormulaEqual_structural:
  "(isFormulaEqual f1 f2 \<longleftrightarrow> formula_eq_ref f1 f2 \<and> sameKeyOrder f1 f2) \<and>
   (canonical f1 \<and> canonical f2 \<longrightarrow> (isFormulaEqual f1 f2 \<longleftrightarrow> formula_eq_ref f1 f2))"
  using canonical_sameKeyOrder [of f1 f2]
  by (auto simp: isFormulaEqual_iff formula_eq_iff)

text \<open>
  The formulas of lines 1 and 4 of \<open>afterII\<close>, the premise \<open>P \<rightarrow> Q\<close> and the \<open>P \<rightarrow> Q\<close> that
  II has built, keep the order of the repository and are equal both ways; \<open>P\<close> and \<open>Q\<close>
  are equal in neither.
\<close>

theorem isFormulaEqual_structural_witness:
  "canonical (formula step1) \<and> canonical (formula step4) \<and>
   isFormulaEqual (formula step1) (formula step4) \<and>
   formula_eq_ref (formula step1) (formula step4) \<and>
   canonical (formula step2) \<and> canonical (formula step3) \<and>
   \<not> isFormulaEqual (formula step2) (formula step3) \<and>
   \<not> formula_eq_ref (formula step2) (formula step3)"
proof -
  have c: "canonical (formula step1) \<and> canonical (formula step4)"
    "canonical (formula step2) \<and> canonical (formula step3)"
    by (simp_all add: example_defs)
  have e: "formula_eq_ref (formula step1) (formula step4)"
    "\<not> formula_eq_ref (formula step2) (formula step3)"
    by (simp_all add: example_defs)
  from isFormulaEqual_structural [of "formula step1" "formula step4", THEN conjunct2, THEN mp,
      OF c(1)]
    isFormulaEqual_structural [of "formula step2" "formula step3", THEN conjunct2, THEN mp,
      OF c(2)] c e
  show ?thesis by blast
qed

text \<open>
  The claim as stated fails on \<open>{"type":"ATOM","name":"P"}\<close> and
  \<open>{"name":"P","type":"ATOM"}\<close>: the same tag and the same name, so structurally equal,
  and two different serialisations, so \<open>isFormulaEqual\<close> returns false.
\<close>

theorem isFormulaEqual_keys_in_another_order:
  "formula_eq_ref (Atom TypeName (ascii ''P'')) (Atom NameType (ascii ''P'')) \<and>
   \<not> isFormulaEqual (Atom TypeName (ascii ''P'')) (Atom NameType (ascii ''P'')) \<and>
   JSON_stringify (Atom TypeName (ascii ''P'')) = ascii ''{\"type\":\"ATOM\",\"name\":\"P\"}'' \<and>
   JSON_stringify (Atom NameType (ascii ''P'')) = ascii ''{\"name\":\"P\",\"type\":\"ATOM\"}''"
  by (simp add: isFormulaEqual_def JSON_stringify_def QuoteJSONString_def quote_unit_def
      is_lead_def is_trail_def ascii_def)

text \<open>
  C10. For every state, every list of selected step ids and every optional secondary
  formula, \<open>applyRule\<close> with rule \<open>ASSUME\<close> fails with the final "not yet implemented"
  error: no branch of the engine accepts \<open>ASSUME\<close>, so it never returns a proof state for
  it.
\<close>

theorem applyRule_ASSUME_fails:
  "applyRule state ASSUME selectedStepIds newFormulaAst = Inl NotImplemented"
  by (simp add: applyRule_def)


section \<open>Properties of the lexer\<close>

text \<open>
  One round of the loop that does not throw: it moves one unit on from a unit other than
  \<open>-\<close>, or two units on from \<open>->\<close>.
\<close>

lemma tokenize_loop_step:
  assumes "tokenize_loop input position tokens = Inr result" "position < length input"
  shows "\<exists>tokens'.
     (input ! position \<noteq> 0x2D \<and> tokenize_loop input (position + 1) tokens' = Inr result) \<or>
     (input ! position = 0x2D \<and> position + 1 < length input \<and>
      input ! (position + 1) = 0x3E \<and> tokenize_loop input (position + 2) tokens' = Inr result)"
  using assms
  by (subst (asm) tokenize_loop.simps) (auto simp: Let_def isWhitespace_def split: if_splits)

lemma tokenize_loop_minus:
  assumes "tokenize_loop input position tokens = Inr result"
    and "position \<le> i" "i < length input" "input ! i = 0x2D"
  shows "i + 1 < length input \<and> input ! (i + 1) = 0x3E"
  using assms
proof (induction "length input - position" arbitrary: position tokens rule: less_induct)
  case less
  have here: "position < length input" using less.prems by simp
  from tokenize_loop_step [OF less.prems(1) here] obtain tokens' where
    step: "(input ! position \<noteq> 0x2D \<and> tokenize_loop input (position + 1) tokens' = Inr result) \<or>
     (input ! position = 0x2D \<and> position + 1 < length input \<and>
      input ! (position + 1) = 0x3E \<and> tokenize_loop input (position + 2) tokens' = Inr result)"
    by blast
  then show ?case
  proof
    assume a: "input ! position \<noteq> 0x2D \<and> tokenize_loop input (position + 1) tokens' = Inr result"
    then have "i \<noteq> position" using less.prems(4) by auto
    then have "position + 1 \<le> i" using less.prems(2) by simp
    moreover have "length input - (position + 1) < length input - position" using here by simp
    ultimately show ?thesis using less.hyps a less.prems(3,4) by blast
  next
    assume a: "input ! position = 0x2D \<and> position + 1 < length input \<and>
      input ! (position + 1) = 0x3E \<and> tokenize_loop input (position + 2) tokens' = Inr result"
    show ?thesis
    proof (cases "i = position")
      case True
      then show ?thesis using a by simp
    next
      case False
      have "i \<noteq> position + 1" using a less.prems(4) by auto
      then have "position + 2 \<le> i" using False less.prems(2) by simp
      moreover have "length input - (position + 2) < length input - position" using here by simp
      ultimately show ?thesis using less.hyps a less.prems(3,4) by blast
    qed
  qed
qed

text \<open>Every error of the lexer is one of its two throws.\<close>

lemma tokenize_loop_error_step:
  assumes "tokenize_loop input position tokens = Inl e"
  shows "(\<exists>c p. e = InvalidCharacter c p \<or> e = UnrecognizedCharacter c p) \<or>
     position < length input \<and>
     (\<exists>tokens'. tokenize_loop input (position + 1) tokens' = Inl e \<or>
        tokenize_loop input (position + 2) tokens' = Inl e)"
  using assms
  by (subst (asm) tokenize_loop.simps) (auto simp: Let_def split: if_splits)

lemma tokenize_loop_error:
  "tokenize_loop input position tokens = Inl e \<Longrightarrow>
   \<exists>c p. e = InvalidCharacter c p \<or> e = UnrecognizedCharacter c p"
proof (induction "length input - position" arbitrary: position tokens rule: less_induct)
  case less
  from tokenize_loop_error_step [OF less.prems] show ?case
  proof
    assume "position < length input \<and>
     (\<exists>tokens'. tokenize_loop input (position + 1) tokens' = Inl e \<or>
        tokenize_loop input (position + 2) tokens' = Inl e)"
    then obtain n tokens' where n: "n = 1 \<or> n = 2" "position < length input"
      and r: "tokenize_loop input (position + n) tokens' = Inl e"
      by blast
    have "length input - (position + n) < length input - position" using n by auto
    from less.hyps [OF this r] show ?thesis .
  qed
qed

text \<open>
  The values of the \<open>IMPLIES\<close> tokens of a successful run, in order, are the lexemes of the
  units \<open>-\<close> and \<open>\<rightarrow>\<close> of the input, in order.
\<close>

lemma tokenize_loop_unfold:
  assumes "position < length input"
  shows "tokenize_loop input position tokens =
        (let char = input ! position in
         if isWhitespace char then tokenize_loop input (position + 1) tokens
         else if char = 0x28 then
           tokenize_loop input (position + 1)
             (tokens @ [\<lparr>tokenType = LEFT_PAREN, tokenValue = [char]\<rparr>])
         else if char = 0x29 then
           tokenize_loop input (position + 1)
             (tokens @ [\<lparr>tokenType = RIGHT_PAREN, tokenValue = [char]\<rparr>])
         else if char = 0x7E \<or> char = 0xAC then
           tokenize_loop input (position + 1)
             (tokens @ [\<lparr>tokenType = T_NOT, tokenValue = [char]\<rparr>])
         else if char = 0x2227 then
           tokenize_loop input (position + 1)
             (tokens @ [\<lparr>tokenType = T_AND, tokenValue = [char]\<rparr>])
         else if char = 0x2228 then
           tokenize_loop input (position + 1)
             (tokens @ [\<lparr>tokenType = T_OR, tokenValue = [char]\<rparr>])
         else if char = 0x2D then
           (if position + 1 < length input \<and> input ! (position + 1) = 0x3E then
              tokenize_loop input (position + 2)
                (tokens @ [\<lparr>tokenType = T_IMPLIES, tokenValue = ascii ''->''\<rparr>])
            else Inl (InvalidCharacter char position))
         else if char = 0x2192 then
           tokenize_loop input (position + 1)
             (tokens @ [\<lparr>tokenType = T_IMPLIES, tokenValue = [char]\<rparr>])
         else if isUpper char then
           tokenize_loop input (position + 1)
             (tokens @ [\<lparr>tokenType = PROPOSITION, tokenValue = [char]\<rparr>])
         else Inl (UnrecognizedCharacter char position))"
  using assms by (subst tokenize_loop.simps) simp

lemma not_ws: "\<not> isWhitespace 0x2D" "\<not> isWhitespace 0x2192"
  by (simp_all add: isWhitespace_def)

lemma tokenize_loop_values_step:
  assumes "tokenize_loop input position tokens = Inr result" "position < length input"
  shows "(input ! position = 0x2D \<and> position + 1 < length input \<and>
      input ! (position + 1) = 0x3E \<and>
      tokenize_loop input (position + 2)
        (tokens @ [\<lparr>tokenType = T_IMPLIES, tokenValue = ascii ''->''\<rparr>]) = Inr result) \<or>
     (input ! position = 0x2192 \<and>
      tokenize_loop input (position + 1)
        (tokens @ [\<lparr>tokenType = T_IMPLIES, tokenValue = [0x2192]\<rparr>]) = Inr result) \<or>
     (input ! position \<noteq> 0x2D \<and> input ! position \<noteq> 0x2192 \<and>
      (tokenize_loop input (position + 1) tokens = Inr result \<or>
       (\<exists>t. tokenType t \<noteq> T_IMPLIES \<and>
          tokenize_loop input (position + 1) (tokens @ [t]) = Inr result)))"
proof (cases "input ! position = 0x2D")
  case True
  with assms show ?thesis
    unfolding tokenize_loop_unfold [OF assms(2)] by (simp add: not_ws split: if_splits)
next
  case False
  note m = this
  show ?thesis
  proof (cases "input ! position = 0x2192")
    case True
    with assms show ?thesis
      unfolding tokenize_loop_unfold [OF assms(2)] by (simp add: not_ws)
  next
    case False
    have "tokenize_loop input (position + 1) tokens = Inr result \<or>
       (\<exists>t. tokenType t \<noteq> T_IMPLIES \<and>
          tokenize_loop input (position + 1) (tokens @ [t]) = Inr result)"
      using assms(1) m False unfolding tokenize_loop_unfold [OF assms(2)] Let_def
      by (simp split: if_splits) force+
    with m False show ?thesis by blast
  qed
qed

lemma tokenize_loop_values:
  assumes "tokenize_loop input position tokens = Inr result"
  shows "impliesValues result = impliesValues tokens @ impliesLexemes (drop position input)"
  using assms
proof (induction "length input - position" arbitrary: position tokens rule: less_induct)
  case less
  show ?case
  proof (cases "position < length input")
    case False
    with less.prems show ?thesis
      by (subst (asm) tokenize_loop.simps) (auto simp: impliesValues_def impliesLexemes_def)
  next
    case True
    then have d1: "drop position input = input ! position # drop (Suc position) input"
      by (simp add: Cons_nth_drop_Suc)
    have m1: "length input - (position + 1) < length input - position" using True by simp
    from tokenize_loop_values_step [OF less.prems True] show ?thesis
    proof (elim disjE conjE exE)
      assume a: "input ! position = 0x2D" "position + 1 < length input"
        "input ! (position + 1) = 0x3E"
        and r: "tokenize_loop input (position + 2)
          (tokens @ [\<lparr>tokenType = T_IMPLIES, tokenValue = ascii ''->''\<rparr>]) = Inr result"
      have d2: "drop (Suc position) input = input ! (Suc position) # drop (Suc (Suc position)) input"
        using a(2) Cons_nth_drop_Suc [of "Suc position" input] by simp
      have a3: "input ! Suc position = 0x3E" using a(3) by simp
      have "length input - (position + 2) < length input - position" using True by simp
      from less.hyps [OF this r] show ?thesis
        by (simp add: d1 d2 a(1) a3 impliesValues_def impliesLexemes_def)
    next
      assume a: "input ! position = 0x2192"
        and r: "tokenize_loop input (position + 1)
          (tokens @ [\<lparr>tokenType = T_IMPLIES, tokenValue = [0x2192]\<rparr>]) = Inr result"
      from less.hyps [OF m1 r] show ?thesis
        by (simp add: d1 a impliesValues_def impliesLexemes_def)
    next
      assume a: "input ! position \<noteq> 0x2D" "input ! position \<noteq> 0x2192"
        and r: "tokenize_loop input (position + 1) tokens = Inr result"
      from less.hyps [OF m1 r] show ?thesis
        by (simp add: d1 a impliesValues_def impliesLexemes_def)
    next
      fix t
      assume a: "input ! position \<noteq> 0x2D" "input ! position \<noteq> 0x2192"
        "tokenType t \<noteq> T_IMPLIES"
        and r: "tokenize_loop input (position + 1) (tokens @ [t]) = Inr result"
      from less.hyps [OF m1 r] show ?thesis
        by (simp add: d1 a impliesValues_def impliesLexemes_def)
    qed
  qed
qed

section \<open>Claims on the lexer and the parser\<close>

lemmas lexer_eval = tokenize_def tokenize_loop.simps isWhitespace_def isUpper_def ascii_def

lemmas parser_eval = parseImplication.simps implicationLoop.simps
  parseDisjunction.simps disjunctionLoop.simps
  parseConjunction.simps conjunctionLoop.simps
  parseUnary.simps peek_def parse_def

text \<open>
  C6. At any position of any input, with any tokens collected so far: on \<open>-\<close> followed
  by \<open>>\<close> the lexer pushes an \<open>IMPLIES\<close> token with the value \<open>->\<close> and goes on two units
  later; on \<open>\<rightarrow>\<close> it pushes an \<open>IMPLIES\<close> token with that unit as its value and goes on one
  unit later; on \<open>-\<close> not followed by \<open>>\<close> it throws "Invalid character" for that unit and
  position. An input with a \<open>-\<close> that is not followed by \<open>>\<close>, wherever it stands, is not
  tokenized: \<open>tokenize\<close> fails with one of the two errors of the lexer. And when \<open>tokenize\<close>
  succeeds, its \<open>IMPLIES\<close> tokens are, in order, one for each \<open>-\<close> (each of them the start
  of a \<open>->\<close>) and one for each \<open>\<rightarrow>\<close> of the input, so no \<open>-\<close> is skipped or given another
  type.
\<close>

theorem tokenize_implies:
  "(position + 1 < length input \<and> input ! position = 0x2D \<and> input ! (position + 1) = 0x3E \<longrightarrow>
      tokenize_loop input position tokens =
        tokenize_loop input (position + 2)
          (tokens @ [\<lparr>tokenType = T_IMPLIES, tokenValue = ascii ''->''\<rparr>])) \<and>
   (position < length input \<and> input ! position = 0x2192 \<longrightarrow>
      tokenize_loop input position tokens =
        tokenize_loop input (position + 1)
          (tokens @ [\<lparr>tokenType = T_IMPLIES, tokenValue = [0x2192]\<rparr>])) \<and>
   (position < length input \<and> input ! position = 0x2D \<and>
    \<not> (position + 1 < length input \<and> input ! (position + 1) = 0x3E) \<longrightarrow>
      tokenize_loop input position tokens = Inl (InvalidCharacter 0x2D position)) \<and>
   (i < length input \<and> input ! i = 0x2D \<and> \<not> (i + 1 < length input \<and> input ! (i + 1) = 0x3E) \<longrightarrow>
      (\<exists>c p. tokenize input = Inl (InvalidCharacter c p) \<or>
             tokenize input = Inl (UnrecognizedCharacter c p))) \<and>
   (tokenize input = Inr result \<longrightarrow> impliesValues result = impliesLexemes input)"
proof (intro conjI impI)
  assume "position + 1 < length input \<and> input ! position = 0x2D \<and> input ! (position + 1) = 0x3E"
  then show "tokenize_loop input position tokens =
        tokenize_loop input (position + 2)
          (tokens @ [\<lparr>tokenType = T_IMPLIES, tokenValue = ascii ''->''\<rparr>])"
    by (subst tokenize_loop_unfold) (simp_all add: not_ws)
next
  assume "position < length input \<and> input ! position = 0x2192"
  then show "tokenize_loop input position tokens =
        tokenize_loop input (position + 1)
          (tokens @ [\<lparr>tokenType = T_IMPLIES, tokenValue = [0x2192]\<rparr>])"
    by (subst tokenize_loop_unfold) (simp_all add: not_ws)
next
  assume "position < length input \<and> input ! position = 0x2D \<and>
    \<not> (position + 1 < length input \<and> input ! (position + 1) = 0x3E)"
  then show "tokenize_loop input position tokens = Inl (InvalidCharacter 0x2D position)"
    by (subst tokenize_loop_unfold) (auto simp: not_ws)
next
  assume a: "i < length input \<and> input ! i = 0x2D \<and>
    \<not> (i + 1 < length input \<and> input ! (i + 1) = 0x3E)"
  show "\<exists>c p. tokenize input = Inl (InvalidCharacter c p) \<or>
             tokenize input = Inl (UnrecognizedCharacter c p)"
  proof (cases "tokenize input")
    case (Inl e)
    then show ?thesis using tokenize_loop_error [of input 0 "[]" e] by (simp add: tokenize_def)
  next
    case (Inr result)
    then have "i + 1 < length input \<and> input ! (i + 1) = 0x3E"
      using tokenize_loop_minus [of input 0 "[]" result i] a by (simp add: tokenize_def)
    with a show ?thesis by simp
  qed
next
  assume "tokenize input = Inr result"
  then show "impliesValues result = impliesLexemes input"
    using tokenize_loop_values [of input 0 "[]" result]
    by (simp add: tokenize_def impliesValues_def)
qed

text \<open>
  On \<open>P->Q\<rightarrow>R\<close> the lexer goes from position 1 to position 3 with the token for \<open>->\<close>
  and from position 4 to position 5 with the token for \<open>\<rightarrow>\<close>, and these are the two
  \<open>IMPLIES\<close> tokens of the result; on \<open>P - Q\<close> it stops at the \<open>-\<close>, at position 2.
\<close>

theorem tokenize_implies_witness:
  "tokenize (ascii ''P->Q'' @ [0x2192] @ ascii ''R'') =
     Inr [\<lparr>tokenType = PROPOSITION, tokenValue = ascii ''P''\<rparr>,
          \<lparr>tokenType = T_IMPLIES, tokenValue = ascii ''->''\<rparr>,
          \<lparr>tokenType = PROPOSITION, tokenValue = ascii ''Q''\<rparr>,
          \<lparr>tokenType = T_IMPLIES, tokenValue = [0x2192]\<rparr>,
          \<lparr>tokenType = PROPOSITION, tokenValue = ascii ''R''\<rparr>,
          \<lparr>tokenType = EOF, tokenValue = []\<rparr>] \<and>
   tokenize_loop (ascii ''P->Q'' @ [0x2192] @ ascii ''R'') 1
       [\<lparr>tokenType = PROPOSITION, tokenValue = ascii ''P''\<rparr>] =
     tokenize_loop (ascii ''P->Q'' @ [0x2192] @ ascii ''R'') (1 + 2)
       ([\<lparr>tokenType = PROPOSITION, tokenValue = ascii ''P''\<rparr>] @
        [\<lparr>tokenType = T_IMPLIES, tokenValue = ascii ''->''\<rparr>]) \<and>
   tokenize_loop (ascii ''P->Q'' @ [0x2192] @ ascii ''R'') 4 [] =
     tokenize_loop (ascii ''P->Q'' @ [0x2192] @ ascii ''R'') (4 + 1)
       ([] @ [\<lparr>tokenType = T_IMPLIES, tokenValue = [0x2192]\<rparr>]) \<and>
   impliesLexemes (ascii ''P->Q'' @ [0x2192] @ ascii ''R'') = [ascii ''->'', [0x2192]] \<and>
   tokenize_loop (ascii ''P - Q'') 2 [] = Inl (InvalidCharacter 0x2D 2) \<and>
   tokenize (ascii ''P - Q'') = Inl (InvalidCharacter 0x2D 2)"
proof -
  let ?ok = "ascii ''P->Q'' @ [0x2192] @ ascii ''R''"
  let ?bad = "ascii ''P - Q''"
  let ?P = "\<lparr>tokenType = PROPOSITION, tokenValue = ascii ''P''\<rparr>"
  let ?arrow = "\<lparr>tokenType = T_IMPLIES, tokenValue = ascii ''->''\<rparr>"
  let ?uarrow = "\<lparr>tokenType = T_IMPLIES, tokenValue = [0x2192]\<rparr>"
  let ?result = "[?P, ?arrow, \<lparr>tokenType = PROPOSITION, tokenValue = ascii ''Q''\<rparr>, ?uarrow,
    \<lparr>tokenType = PROPOSITION, tokenValue = ascii ''R''\<rparr>, \<lparr>tokenType = EOF, tokenValue = []\<rparr>]"
  note two = tokenize_implies [THEN conjunct1, rule_format]
  note one = tokenize_implies [THEN conjunct2, THEN conjunct1, rule_format]
  note lone = tokenize_implies [THEN conjunct2, THEN conjunct2, THEN conjunct1, rule_format]
  note some = tokenize_implies [THEN conjunct2, THEN conjunct2, THEN conjunct2,
      THEN conjunct1, rule_format]
  note vals = tokenize_implies [THEN conjunct2, THEN conjunct2, THEN conjunct2,
      THEN conjunct2, rule_format]
  have ok: "tokenize ?ok = Inr ?result"
    by (simp add: lexer_eval)
  have 1: "tokenize_loop ?ok 1 [?P] = tokenize_loop ?ok (1 + 2) ([?P] @ [?arrow])"
    by (rule two) (simp add: ascii_def)
  have 2: "tokenize_loop ?ok 4 [] = tokenize_loop ?ok (4 + 1) ([] @ [?uarrow])"
    by (rule one) (simp add: ascii_def)
  have "impliesValues ?result = impliesLexemes ?ok" by (rule vals [OF ok])
  then have 3: "impliesLexemes ?ok = [ascii ''->'', [0x2192]]"
    by (simp add: impliesValues_def)
  have 4: "tokenize_loop ?bad 2 [] = Inl (InvalidCharacter 0x2D 2)"
    by (rule lone) (simp add: ascii_def)
  have "\<exists>c p. tokenize ?bad = Inl (InvalidCharacter c p) \<or>
      tokenize ?bad = Inl (UnrecognizedCharacter c p)"
    by (rule some [of 2]) (simp add: ascii_def)
  then have 5: "tokenize ?bad = Inl (InvalidCharacter 0x2D 2)"
    by (simp add: lexer_eval)
  show ?thesis using ok 1 2 3 4 5 by blast
qed

text \<open>
  C4. \<open>tokenize\<close> and then \<open>parse\<close> on \<open>P \<or> Q \<and> R\<close> give \<open>Or(P, And(Q, R))\<close>, on
  \<open>P -> Q -> R\<close> give \<open>Implies(P, Implies(Q, R))\<close> and on \<open>~~P\<close> give \<open>Not(Not(P))\<close>.
\<close>

theorem parseFormula_precedence:
  "parseFormula (ascii ''P '' @ [0x2228] @ ascii '' Q '' @ [0x2227] @ ascii '' R'') =
     Inr (Binary TCLR OR (Atom TypeName (ascii ''P''))
            (Binary TCLR AND (Atom TypeName (ascii ''Q'')) (Atom TypeName (ascii ''R'')))) \<and>
   parseFormula (ascii ''P -> Q -> R'') =
     Inr (Binary TCLR IMPLIES (Atom TypeName (ascii ''P''))
            (Binary TCLR IMPLIES (Atom TypeName (ascii ''Q'')) (Atom TypeName (ascii ''R'')))) \<and>
   parseFormula (ascii ''~~P'') =
     Inr (Not TypeFormula (Not TypeFormula (Atom TypeName (ascii ''P''))))"
  by (simp add: parseFormula_def lexer_eval parser_eval)

end
